theory Spec2Isabelle
  imports Main
begin

section \<open>Data shared by the binding and the engine\<close>

text \<open>
  The Python module \<^verbatim>\<open>glean/metrics/string_list.py\<close> is a binding: each method
  marshals its arguments and calls one entry point of the native library through
  \<^verbatim>\<open>_ffi.lib\<close>, and the two recording methods hand their call to
  \<^verbatim>\<open>Dispatcher.launch\<close>. The native library, the dispatcher and the marshalling
  helpers are not part of the file; they are modelled below from the specification and
  marked as such.
\<close>

datatype Lifetime = Ping | Application | User

datatype ErrorType = InvalidValue | InvalidLabel | InvalidState | InvalidOverflow

text \<open>The exceptions a method of the binding can raise.\<close>

datatype py_error = IndexError | ValueError | JSONDecodeError

text \<open>What \<^verbatim>\<open>json.loads\<close> can return on the texts considered here.\<close>

datatype py_value = PyNone | PyList "string list"

text \<open>
  The two limits are fixed constants of the engine whose values the binding never sees;
  every engine operation takes them as a parameter.
\<close>

record limits =
  MAX_LIST_LENGTH :: nat
  MAX_STRING_LENGTH :: nat

section \<open>The engine\<close>

type_synonym metric_id = "string \<times> string"

record MetricDefinition =
  def_disabled :: bool
  def_category :: string
  def_name :: string
  def_lifetime :: Lifetime
  def_sendInPings :: "string list"

text \<open>
  The engine state: the registry of live handles, the number of handles handed out so
  far, the Metric Store (one value per metric identity and ping) and the Error Recorder
  (one counter per metric identity, error kind and ping).
\<close>

record engine =
  registry :: "nat \<rightharpoonup> MetricDefinition"
  allocated :: nat
  metric_store :: "metric_id \<times> string \<rightharpoonup> string list"
  error_count :: "metric_id \<times> ErrorType \<times> string \<Rightarrow> nat"

definition new_engine :: engine where
  "new_engine =
     \<lparr>registry = Map.empty, allocated = 0, metric_store = Map.empty,
      error_count = (\<lambda>_. 0)\<rparr>"

text \<open>Modelled from the spec: the identity of a metric definition is (category, name)
  (section 3); the native engine is not among the sources.\<close>

definition identity :: "MetricDefinition \<Rightarrow> metric_id" where
  "identity d = (def_category d, def_name d)"

text \<open>Modelled from the spec: the Validator of section 4.1, which lives in the native
  engine. A list longer than \<open>MAX_LIST_LENGTH\<close> is cut to its first
  \<open>MAX_LIST_LENGTH\<close> entries with one \<open>InvalidOverflow\<close>; then every kept element
  longer than \<open>MAX_STRING_LENGTH\<close> is cut to the limit, with one
  \<open>InvalidOverflow\<close> per element cut.\<close>

definition validate :: "limits \<Rightarrow> string list \<Rightarrow> string list \<times> ErrorType list" where
  "validate lim candidateList =
     (let kept = (if length candidateList > MAX_LIST_LENGTH lim
                  then take (MAX_LIST_LENGTH lim) candidateList else candidateList);
          listErrors = (if length candidateList > MAX_LIST_LENGTH lim
                        then [InvalidOverflow] else []);
          elemErrors = map (\<lambda>_. InvalidOverflow)
                         (filter (\<lambda>s. length s > MAX_STRING_LENGTH lim) kept)
      in (map (take (MAX_STRING_LENGTH lim)) kept, listErrors @ elemErrors))"

text \<open>Modelled from the spec: the Error Recorder of section 4.3 (\<open>record\<close> and
  \<open>count\<close>), which lives in the native engine.\<close>

definition record_error :: "MetricDefinition \<Rightarrow> ErrorType \<Rightarrow> string \<Rightarrow> engine \<Rightarrow> engine" where
  "record_error d kind pingName e =
     e\<lparr>error_count := (error_count e)
          ((identity d, kind, pingName) := Suc (error_count e (identity d, kind, pingName)))\<rparr>"

definition count_errors :: "engine \<Rightarrow> MetricDefinition \<Rightarrow> ErrorType \<Rightarrow> string \<Rightarrow> nat" where
  "count_errors e d kind pingName = error_count e (identity d, kind, pingName)"

text \<open>Modelled from the spec: the Metric Store of section 4.2 (\<open>getValue\<close>,
  \<open>replace\<close>, \<open>append\<close>), which lives in the native engine. Neither write looks at
  the disabled flag: the spec leaves that test to the caller.\<close>

definition getValue :: "engine \<Rightarrow> MetricDefinition \<Rightarrow> string \<Rightarrow> string list option" where
  "getValue e d pingName = metric_store e (identity d, pingName)"

definition write_value :: "MetricDefinition \<Rightarrow> string \<Rightarrow> string list \<Rightarrow> engine \<Rightarrow> engine" where
  "write_value d pingName xs e =
     e\<lparr>metric_store := (metric_store e)((identity d, pingName) \<mapsto> xs)\<rparr>"

definition replace_metric ::
  "limits \<Rightarrow> MetricDefinition \<Rightarrow> string \<Rightarrow> string list \<Rightarrow> engine \<Rightarrow> engine" where
  "replace_metric lim d pingName vs e =
     (case validate lim vs of
        (accepted, errs) \<Rightarrow>
          fold (\<lambda>kind. record_error d kind pingName) errs (write_value d pingName accepted e))"

definition append_metric ::
  "limits \<Rightarrow> MetricDefinition \<Rightarrow> string \<Rightarrow> string list \<Rightarrow> engine \<Rightarrow> engine" where
  "append_metric lim d pingName vs e =
     (case validate lim vs of
        (new, errs1) \<Rightarrow>
          (case validate lim
                  ((case getValue e d pingName of None \<Rightarrow> [] | Some cur \<Rightarrow> cur) @ new) of
             (accepted, errs2) \<Rightarrow>
               fold (\<lambda>kind. record_error d kind pingName) (errs1 @ errs2)
                 (write_value d pingName accepted e)))"

text \<open>Modelled from the spec: \<open>register\<close> and \<open>dispose\<close> of section 6, which live in
  the native engine. Registration hands out the next handle (handles start at 1, so 0
  is never a handle) and enters the definition in the registry; disposal removes the
  entry and ignores a handle that is not live.\<close>

definition register ::
  "string \<Rightarrow> string \<Rightarrow> string list \<Rightarrow> Lifetime \<Rightarrow> bool \<Rightarrow> engine \<Rightarrow> nat \<times> engine" where
  "register category name sendInPings lifetime disabled e =
     (Suc (allocated e),
      e\<lparr>registry := (registry e)(Suc (allocated e) \<mapsto>
           \<lparr>def_disabled = disabled, def_category = category, def_name = name,
            def_lifetime = lifetime, def_sendInPings = sendInPings\<rparr>),
        allocated := Suc (allocated e)\<rparr>)"

definition dispose :: "nat \<Rightarrow> engine \<Rightarrow> engine" where
  "dispose h e = e\<lparr>registry := (registry e)(h := None)\<rparr>"

section \<open>The binding's view of the world\<close>

text \<open>The Python object: the attributes \<^verbatim>\<open>_disabled\<close>, \<^verbatim>\<open>_send_in_pings\<close> and
  \<^verbatim>\<open>_handle\<close>.\<close>

record StringListMetricType =
  self_disabled :: bool
  self_send_in_pings :: "string list"
  self_handle :: nat

text \<open>
  A task is one of the two closures the binding hands to the dispatcher. The closure
  captures \<^verbatim>\<open>self\<close> and \<^verbatim>\<open>value\<close>; the sequence is taken as the immutable list
  of its elements.
\<close>

datatype task =
    Add_closure StringListMetricType string
  | Set_closure StringListMetricType "string list"

text \<open>The calls made through \<^verbatim>\<open>_ffi.lib\<close>, in the order they are made.\<close>

datatype ffi_call =
    Call_new_string_list_metric string string "string list" nat Lifetime bool
  | Call_destroy_string_list_metric nat
  | Call_string_list_add nat string
  | Call_string_list_set nat "string list" nat
  | Call_string_list_test_has_value nat string
  | Call_string_list_test_get_value_as_json_string nat string
  | Call_string_list_test_get_num_recorded_errors nat ErrorType string

record world =
  core :: engine
  queue :: "task list"
  ffi_log :: "ffi_call list"

definition new_world :: world where
  "new_world = \<lparr>core = new_engine, queue = [], ffi_log = []\<rparr>"

definition logged :: "ffi_call \<Rightarrow> world \<Rightarrow> world" where
  "logged c w = w\<lparr>ffi_log := ffi_log w @ [c]\<rparr>"

text \<open>Modelled from the spec: the marshalling helpers of \<^verbatim>\<open>glean/_ffi.py\<close>, which is
  not among the sources. The spec leaves the encoding to the implementer; a string and
  a vector of strings cross the boundary unchanged.\<close>

definition ffi_encode_string :: "string \<Rightarrow> string" where
  "ffi_encode_string s = s"

definition ffi_decode_string :: "string \<Rightarrow> string" where
  "ffi_decode_string s = s"

definition ffi_encode_vec_string :: "string list \<Rightarrow> string list" where
  "ffi_encode_vec_string xs = xs"

text \<open>Modelled from the spec: the native entry points for registration and teardown,
  which are not among the sources. A vector crosses the boundary as an array and a
  length, of which the engine reads the first \<open>n\<close> entries.\<close>

definition lib_glean_new_string_list_metric ::
  "string \<Rightarrow> string \<Rightarrow> string list \<Rightarrow> nat \<Rightarrow> Lifetime \<Rightarrow> bool \<Rightarrow> world \<Rightarrow> nat \<times> world" where
  "lib_glean_new_string_list_metric category name pings n lifetime disabled w =
     (case register category name (take n pings) lifetime disabled (core w) of
        (h, e) \<Rightarrow>
          (h, logged (Call_new_string_list_metric category name pings n lifetime disabled)
                (w\<lparr>core := e\<rparr>)))"

definition lib_glean_destroy_string_list_metric :: "nat \<Rightarrow> world \<Rightarrow> world" where
  "lib_glean_destroy_string_list_metric h w =
     logged (Call_destroy_string_list_metric h) (w\<lparr>core := dispose h (core w)\<rparr>)"

text \<open>Modelled from the spec: the native entry points for recording, which are not
  among the sources. A handle that is not live is ignored; a live one is written once
  for every entry of its \<open>sendInPings\<close>, in order, so a ping named twice is
  written twice.\<close>

definition lib_glean_string_list_add :: "limits \<Rightarrow> nat \<Rightarrow> string \<Rightarrow> world \<Rightarrow> world" where
  "lib_glean_string_list_add lim h s w =
     logged (Call_string_list_add h s)
       (case registry (core w) h of
          None \<Rightarrow> w
        | Some d \<Rightarrow>
            w\<lparr>core := fold (\<lambda>p. append_metric lim d p [s])
                         (def_sendInPings d) (core w)\<rparr>)"

definition lib_glean_string_list_set ::
  "limits \<Rightarrow> nat \<Rightarrow> string list \<Rightarrow> nat \<Rightarrow> world \<Rightarrow> world" where
  "lib_glean_string_list_set lim h vs n w =
     logged (Call_string_list_set h vs n)
       (case registry (core w) h of
          None \<Rightarrow> w
        | Some d \<Rightarrow>
            w\<lparr>core := fold (\<lambda>p. replace_metric lim d p (take n vs))
                         (def_sendInPings d) (core w)\<rparr>)"

text \<open>Modelled from the spec: the Dispatcher of section 4.4
  (\<^verbatim>\<open>glean/_dispatcher.py\<close> is not among the sources). \<open>launch\<close> appends the task to
  the one FIFO queue and returns; the single worker takes tasks from the front, one at
  a time, in submission order.\<close>

definition Dispatcher_launch :: "task \<Rightarrow> world \<Rightarrow> world" where
  "Dispatcher_launch t w = w\<lparr>queue := queue w @ [t]\<rparr>"

section \<open>The methods of \<^verbatim>\<open>StringListMetricType\<close>\<close>

definition StringListMetricType_init ::
  "bool \<Rightarrow> string \<Rightarrow> Lifetime \<Rightarrow> string \<Rightarrow> string list \<Rightarrow> world
     \<Rightarrow> StringListMetricType \<times> world" where
  "StringListMetricType_init disabled category lifetime name send_in_pings w =
     (case lib_glean_new_string_list_metric
             (ffi_encode_string category) (ffi_encode_string name)
             (ffi_encode_vec_string send_in_pings) (length send_in_pings)
             lifetime disabled w of
        (h, w') \<Rightarrow>
          (\<lparr>self_disabled = disabled, self_send_in_pings = send_in_pings,
            self_handle = h\<rparr>, w'))"

text \<open>\<^verbatim>\<open>__del__\<close>: the attribute \<^verbatim>\<open>_handle\<close> is present on every constructed
  object, so \<^verbatim>\<open>getattr(self, "_handle", 0)\<close> is the handle.\<close>

definition StringListMetricType_del :: "StringListMetricType \<Rightarrow> world \<Rightarrow> world" where
  "StringListMetricType_del self w =
     (if self_handle self \<noteq> 0
      then lib_glean_destroy_string_list_metric (self_handle self) w
      else w)"

text \<open>A method call yields what it returns, or the exception it raises, together with
  the world it leaves behind. The two recording methods return \<^verbatim>\<open>None\<close>.\<close>

definition add ::
  "StringListMetricType \<Rightarrow> string \<Rightarrow> world \<Rightarrow> (py_error + unit) \<times> world" where
  "add self v w =
     (if self_disabled self then (Inr (), w)
      else (Inr (), Dispatcher_launch (Add_closure self v) w))"

definition set_metric ::
  "StringListMetricType \<Rightarrow> string list \<Rightarrow> world \<Rightarrow> (py_error + unit) \<times> world" where
  "set_metric self v w =
     (if self_disabled self then (Inr (), w)
      else (Inr (), Dispatcher_launch (Set_closure self v) w))"

text \<open>The bodies of the two closures, run by the dispatcher's worker.\<close>

fun run_task :: "limits \<Rightarrow> task \<Rightarrow> world \<Rightarrow> world" where
  "run_task lim (Add_closure self v) w =
     lib_glean_string_list_add lim (self_handle self) (ffi_encode_string v) w"
| "run_task lim (Set_closure self v) w =
     lib_glean_string_list_set lim (self_handle self) (ffi_encode_vec_string v) (length v) w"

text \<open>Modelled from the spec: the worker of the Dispatcher (section 4.4). One step
  takes the task at the front of the queue and runs it; draining runs the queue to its
  end.\<close>

definition worker_step :: "limits \<Rightarrow> world \<Rightarrow> world" where
  "worker_step lim w =
     (case queue w of [] \<Rightarrow> w | t # ts \<Rightarrow> run_task lim t (w\<lparr>queue := ts\<rparr>))"

fun worker_steps :: "limits \<Rightarrow> nat \<Rightarrow> world \<Rightarrow> world" where
  "worker_steps lim 0 w = w"
| "worker_steps lim (Suc n) w = worker_steps lim n (worker_step lim w)"

definition drain :: "limits \<Rightarrow> world \<Rightarrow> world" where
  "drain lim w = worker_steps lim (length (queue w)) w"

section \<open>The JSON text that carries a stored value to the binding\<close>

text \<open>Modelled from the spec: the value handed to the test interface is the stored
  sequence as a JSON array of strings (sections 2 and 4.5); the encoder lives in the
  native engine. Inside a string literal the quote and the backslash are escaped with a
  backslash and a control character is written \<^verbatim>\<open>\u00XX\<close>.\<close>

definition hex_digit :: "nat \<Rightarrow> char" where
  "hex_digit n = (if n < 10 then char_of (48 + n) else char_of (87 + n))"

definition json_escape :: "char \<Rightarrow> string" where
  "json_escape c =
     (if c = CHR 0x22 then [CHR 0x5C, CHR 0x22]
      else if c = CHR 0x5C then [CHR 0x5C, CHR 0x5C]
      else if (of_char c :: nat) < 32
        then [CHR 0x5C, CHR ''u'', CHR ''0'', CHR ''0'',
              hex_digit ((of_char c :: nat) div 16), hex_digit ((of_char c :: nat) mod 16)]
      else [c])"

definition json_string :: "string \<Rightarrow> string" where
  "json_string s = CHR 0x22 # concat (map json_escape s) @ [CHR 0x22]"

fun json_items :: "string list \<Rightarrow> string" where
  "json_items [] = []"
| "json_items [x] = json_string x"
| "json_items (x # y # ys) = json_string x @ CHR '','' # json_items (y # ys)"

definition json_array :: "string list \<Rightarrow> string" where
  "json_array xs = CHR ''['' # json_items xs @ [CHR '']'']"

text \<open>
  \<^verbatim>\<open>json.loads\<close> of the Python standard library, on the texts this binding can
  meet: \<^verbatim>\<open>null\<close> and an array of string literals. The text is scanned one
  character at a time. A character is a code point below 256, so an escape
  \<^verbatim>\<open>\uXXXX\<close> beyond that range has no value here and is reported as a failure,
  as is every text that is not one of the two forms.
\<close>

datatype scan_state =
    Before
  | Opened
  | In_string "string list" string
  | Escaped "string list" string
  | Unicode "string list" string nat nat
  | After_item "string list"
  | After_comma "string list"
  | Closed "string list"
  | Failed

definition is_ws :: "char \<Rightarrow> bool" where
  "is_ws c = (c = CHR 0x20 \<or> c = CHR 0x09 \<or> c = CHR 0x0A \<or> c = CHR 0x0D)"

definition hex_value :: "char \<Rightarrow> nat option" where
  "hex_value c =
     (let n = (of_char c :: nat) in
      if 48 \<le> n \<and> n \<le> 57 then Some (n - 48)
      else if 97 \<le> n \<and> n \<le> 102 then Some (n - 87)
      else if 65 \<le> n \<and> n \<le> 70 then Some (n - 55)
      else None)"

definition unescape :: "char \<Rightarrow> char option" where
  "unescape c =
     (if c = CHR 0x22 \<or> c = CHR 0x5C \<or> c = CHR ''/'' then Some c
      else if c = CHR ''b'' then Some (CHR 0x08)
      else if c = CHR ''f'' then Some (CHR 0x0C)
      else if c = CHR ''n'' then Some (CHR 0x0A)
      else if c = CHR ''r'' then Some (CHR 0x0D)
      else if c = CHR ''t'' then Some (CHR 0x09)
      else None)"

fun scan :: "scan_state \<Rightarrow> char \<Rightarrow> scan_state" where
  "scan Before c =
     (if is_ws c then Before else if c = CHR ''['' then Opened else Failed)"
| "scan Opened c =
     (if is_ws c then Opened
      else if c = CHR '']'' then Closed []
      else if c = CHR 0x22 then In_string [] []
      else Failed)"
| "scan (In_string items cur) c =
     (if c = CHR 0x22 then After_item (items @ [cur])
      else if c = CHR 0x5C then Escaped items cur
      else if (of_char c :: nat) < 32 then Failed
      else In_string items (cur @ [c]))"
| "scan (Escaped items cur) c =
     (if c = CHR ''u'' then Unicode items cur 0 0
      else (case unescape c of
              None \<Rightarrow> Failed
            | Some x \<Rightarrow> In_string items (cur @ [x])))"
| "scan (Unicode items cur k v) c =
     (case hex_value c of
        None \<Rightarrow> Failed
      | Some h \<Rightarrow>
          if k < 3 then Unicode items cur (Suc k) (16 * v + h)
          else if 16 * v + h < 256 then In_string items (cur @ [char_of (16 * v + h)])
          else Failed)"
| "scan (After_item items) c =
     (if is_ws c then After_item items
      else if c = CHR '','' then After_comma items
      else if c = CHR '']'' then Closed items
      else Failed)"
| "scan (After_comma items) c =
     (if is_ws c then After_comma items
      else if c = CHR 0x22 then In_string items []
      else Failed)"
| "scan (Closed items) c = (if is_ws c then Closed items else Failed)"
| "scan Failed c = Failed"

definition json_loads :: "string \<Rightarrow> py_error + py_value" where
  "json_loads s =
     (if s = ''null'' then Inr PyNone
      else (case foldl scan Before s of
              Closed items \<Rightarrow> Inr (PyList items)
            | _ \<Rightarrow> Inl JSONDecodeError))"

section \<open>The test methods\<close>

text \<open>Modelled from the spec: the native entry points for test inspection, which are
  not among the sources. They read the Metric Store and the Error Recorder as they are
  at the moment of the call; a handle that is not live has no value and no errors.\<close>

definition lookup_value :: "engine \<Rightarrow> nat \<Rightarrow> string \<Rightarrow> string list option" where
  "lookup_value e h p = (case registry e h of None \<Rightarrow> None | Some d \<Rightarrow> getValue e d p)"

definition lookup_errors :: "engine \<Rightarrow> nat \<Rightarrow> ErrorType \<Rightarrow> string \<Rightarrow> nat" where
  "lookup_errors e h kind p =
     (case registry e h of None \<Rightarrow> 0 | Some d \<Rightarrow> count_errors e d kind p)"

definition lib_glean_string_list_test_has_value :: "nat \<Rightarrow> string \<Rightarrow> world \<Rightarrow> nat \<times> world" where
  "lib_glean_string_list_test_has_value h p w =
     ((case lookup_value (core w) h p of None \<Rightarrow> 0 | Some _ \<Rightarrow> 1),
      logged (Call_string_list_test_has_value h p) w)"

definition lib_glean_string_list_test_get_value_as_json_string ::
  "nat \<Rightarrow> string \<Rightarrow> world \<Rightarrow> string \<times> world" where
  "lib_glean_string_list_test_get_value_as_json_string h p w =
     ((case lookup_value (core w) h p of None \<Rightarrow> ''null'' | Some xs \<Rightarrow> json_array xs),
      logged (Call_string_list_test_get_value_as_json_string h p) w)"

definition lib_glean_string_list_test_get_num_recorded_errors ::
  "nat \<Rightarrow> ErrorType \<Rightarrow> string \<Rightarrow> world \<Rightarrow> int \<times> world" where
  "lib_glean_string_list_test_get_num_recorded_errors h kind p w =
     (int (lookup_errors (core w) h kind p),
      logged (Call_string_list_test_get_num_recorded_errors h kind p) w)"

text \<open>The common opening of the three test methods:
  \<^verbatim>\<open>if ping_name is None: ping_name = self._send_in_pings[0]\<close>. Indexing an empty
  list raises \<^verbatim>\<open>IndexError\<close>.\<close>

definition default_ping :: "StringListMetricType \<Rightarrow> string option \<Rightarrow> py_error + string" where
  "default_ping self ping_name =
     (case ping_name of
        Some p \<Rightarrow> Inr p
      | None \<Rightarrow> (case self_send_in_pings self of [] \<Rightarrow> Inl IndexError | p # _ \<Rightarrow> Inr p))"

definition py_bool :: "nat \<Rightarrow> bool" where
  "py_bool n = (n \<noteq> 0)"

definition test_has_value ::
  "StringListMetricType \<Rightarrow> string option \<Rightarrow> world \<Rightarrow> (py_error + bool) \<times> world" where
  "test_has_value self ping_name w =
     (case default_ping self ping_name of
        Inl err \<Rightarrow> (Inl err, w)
      | Inr p \<Rightarrow>
          (case lib_glean_string_list_test_has_value (self_handle self)
                  (ffi_encode_string p) w of
             (r, w') \<Rightarrow> (Inr (py_bool r), w')))"

definition test_get_value ::
  "StringListMetricType \<Rightarrow> string option \<Rightarrow> world \<Rightarrow> (py_error + py_value) \<times> world" where
  "test_get_value self ping_name w =
     (case default_ping self ping_name of
        Inl err \<Rightarrow> (Inl err, w)
      | Inr p \<Rightarrow>
          (case test_has_value self (Some p) w of
             (Inl err, w1) \<Rightarrow> (Inl err, w1)
           | (Inr has, w1) \<Rightarrow>
               if \<not> has then (Inl ValueError, w1)
               else (case lib_glean_string_list_test_get_value_as_json_string
                            (self_handle self) (ffi_encode_string p) w1 of
                       (js, w2) \<Rightarrow> (json_loads (ffi_decode_string js), w2))))"

definition test_get_num_recorded_errors ::
  "StringListMetricType \<Rightarrow> ErrorType \<Rightarrow> string option \<Rightarrow> world
     \<Rightarrow> (py_error + int) \<times> world" where
  "test_get_num_recorded_errors self error_type ping_name w =
     (case default_ping self ping_name of
        Inl err \<Rightarrow> (Inl err, w)
      | Inr p \<Rightarrow>
          (case lib_glean_string_list_test_get_num_recorded_errors (self_handle self)
                  error_type (ffi_encode_string p) w of
             (n, w') \<Rightarrow> (Inr n, w')))"

section \<open>Histories and examples\<close>

text \<open>
  An object made by the constructor and not yet disposed: its handle is live in the
  engine and the registered definition has the object's destination pings.
\<close>

definition registered :: "StringListMetricType \<Rightarrow> world \<Rightarrow> bool" where
  "registered self w =
     (case registry (core w) (self_handle self) of
        None \<Rightarrow> False
      | Some d \<Rightarrow> def_sendInPings d = self_send_in_pings self)"

text \<open>
  What can happen between two reads: a caller records through some metric object, or
  the worker runs the task at the front of the queue. \<open>happen\<close> is the event as it
  takes place; \<open>applied\<close> is what the event has done to the engine once its task has
  run.
\<close>

datatype event =
    Call_add StringListMetricType string
  | Call_set StringListMetricType "string list"
  | Worker_step

fun happen :: "limits \<Rightarrow> event \<Rightarrow> world \<Rightarrow> world" where
  "happen lim (Call_add self v) w = snd (add self v w)"
| "happen lim (Call_set self v) w = snd (set_metric self v w)"
| "happen lim Worker_step w = worker_step lim w"

fun applied :: "limits \<Rightarrow> event \<Rightarrow> world \<Rightarrow> world" where
  "applied lim (Call_add self v) w =
     (if self_disabled self then w else run_task lim (Add_closure self v) w)"
| "applied lim (Call_set self v) w =
     (if self_disabled self then w else run_task lim (Set_closure self v) w)"
| "applied lim Worker_step w = w"

text \<open>The scenario of the spec's section 8: the metric \<open>tags.list1\<close>, lifetime
  \<open>Ping\<close>, sent in the ping \<open>metrics\<close>, registered in a fresh world; and the same
  metric registered as disabled.\<close>

definition limits_20_50 :: limits where
  "limits_20_50 = \<lparr>MAX_LIST_LENGTH = 20, MAX_STRING_LENGTH = 50\<rparr>"

definition list1 :: StringListMetricType where
  "list1 = fst (StringListMetricType_init False ''tags'' Ping ''list1'' [''metrics''] new_world)"

definition list1_world :: world where
  "list1_world =
     snd (StringListMetricType_init False ''tags'' Ping ''list1'' [''metrics''] new_world)"

text \<open>A metric that names the ping \<open>metrics\<close> twice.\<close>

definition list2 :: StringListMetricType where
  "list2 =
     fst (StringListMetricType_init False ''tags'' Ping ''list2'' [''metrics'', ''metrics'']
            new_world)"

definition list2_world :: world where
  "list2_world =
     snd (StringListMetricType_init False ''tags'' Ping ''list2'' [''metrics'', ''metrics'']
            new_world)"

definition list1_off :: StringListMetricType where
  "list1_off = fst (StringListMetricType_init True ''tags'' Ping ''list1'' [''metrics''] new_world)"

definition list1_off_world :: world where
  "list1_off_world =
     snd (StringListMetricType_init True ''tags'' Ping ''list1'' [''metrics''] new_world)"

section \<open>The JSON text is read back as the list it was written from\<close>

lemma hex_value_digit: "n < 16 \<Longrightarrow> hex_value (hex_digit n) = Some n"
  by (auto simp: hex_value_def hex_digit_def Let_def)

lemma scan_escape:
  "foldl scan (In_string items cur) (json_escape c) = In_string items (cur @ [c])"
proof -
  consider "c = CHR 0x22" | "c = CHR 0x5C" 
    | "c \<noteq> CHR 0x22" "c \<noteq> CHR 0x5C" "(of_char c :: nat) < 32"
    | "c \<noteq> CHR 0x22" "c \<noteq> CHR 0x5C" "\<not> (of_char c :: nat) < 32" by blast
  then show ?thesis
  proof cases
    case 1 then show ?thesis by (simp add: json_escape_def unescape_def)
  next
    case 2 then show ?thesis by (simp add: json_escape_def unescape_def)
  next
    case 3
    let ?n = "of_char c :: nat"
    have a: "?n div 16 < 16" "?n mod 16 < 16" using 3 by auto
    have u: "hex_value CHR ''0'' = Some 0" by (simp add: hex_value_def)
    have "16 * (?n div 16) + ?n mod 16 = ?n" by simp
    with 3 a show ?thesis
      by (simp add: json_escape_def u hex_value_digit)
  next
    case 4 then show ?thesis by (simp add: json_escape_def)
  qed
qed

lemma scan_escapes:
  "foldl scan (In_string items cur) (concat (map json_escape s)) = In_string items (cur @ s)"
  by (induction s arbitrary: cur) (simp_all add: scan_escape)

lemma scan_string_Opened:
  "foldl scan Opened (json_string s @ rest) = foldl scan (After_item [s]) rest"
  by (simp add: json_string_def scan_escapes is_ws_def)

lemma scan_string_After_comma:
  "foldl scan (After_comma items) (json_string s @ rest) = foldl scan (After_item (items @ [s])) rest"
  by (simp add: json_string_def scan_escapes is_ws_def)

lemma scan_items:
  "foldl scan (After_comma items) (json_items (x # xs) @ rest) = foldl scan (After_item (items @ x # xs)) rest"
proof (induction xs arbitrary: items x)
  case Nil
  show ?case using scan_string_After_comma by simp
next
  case (Cons y ys)
  have "foldl scan (After_comma items) (json_items (x # y # ys) @ rest)
      = foldl scan (After_comma items) (json_string x @ (CHR '','' # json_items (y # ys) @ rest))"
    by simp
  also have "\<dots> = foldl scan (After_item (items @ [x])) (CHR '','' # json_items (y # ys) @ rest)"
    by (rule scan_string_After_comma)
  also have "\<dots> = foldl scan (After_comma (items @ [x])) (json_items (y # ys) @ rest)"
    by (simp add: is_ws_def)
  also have "\<dots> = foldl scan (After_item ((items @ [x]) @ y # ys)) rest"
    by (rule Cons.IH)
  finally show ?case by simp
qed

lemma json_loads_array: "json_loads (json_array xs) = Inr (PyList xs)"
proof (cases xs)
  case Nil
  then show ?thesis by (simp add: json_loads_def json_array_def is_ws_def)
next
  case (Cons x ys)
  have ne: "json_array xs \<noteq> ''null''" by (simp add: json_array_def)
  have "foldl scan Before (json_array xs) = Closed xs"
  proof (cases ys)
    case Nil
    with Cons show ?thesis using scan_string_Opened [of x "'']''"] 
      by (simp add: json_array_def is_ws_def)
  next
    case (Cons y zs)
    with \<open>xs = x # ys\<close> show ?thesis 
      using scan_string_Opened [of x "CHR '','' # json_items (y # zs) @ '']''"] 
          scan_items [of "[x]" y zs "'']''"]
      by (simp add: json_array_def is_ws_def)
  qed
  with ne show ?thesis by (simp add: json_loads_def)
qed

section \<open>What one write does to the engine\<close>

lemma fold_record_error_fields:
  "metric_store (fold (\<lambda>kind. record_error d kind p) errs e) = metric_store e"
  "registry (fold (\<lambda>kind. record_error d kind p) errs e) = registry e"
  "allocated (fold (\<lambda>kind. record_error d kind p) errs e) = allocated e"
  by (induction errs arbitrary: e) (simp_all add: record_error_def)

lemma fold_record_error_count:
  "error_count (fold (\<lambda>kind. record_error d kind p) errs e) (i, k, q) =
     error_count e (i, k, q) + (if i = identity d \<and> q = p then count_list errs k else 0)"
  by (induction errs arbitrary: e) (auto simp: record_error_def)

lemma replace_metric_fields:
  "registry (replace_metric lim d p vs e) = registry e"
  "allocated (replace_metric lim d p vs e) = allocated e"
  "metric_store (replace_metric lim d p vs e) = (metric_store e)((identity d, p) \<mapsto> fst (validate lim vs))"
  by (simp_all add: replace_metric_def fold_record_error_fields write_value_def split: prod.splits)

lemma replace_metric_count:
  "error_count (replace_metric lim d p vs e) (i, k, q) =
     error_count e (i, k, q) +
       (if i = identity d \<and> q = p then count_list (snd (validate lim vs)) k else 0)"
  by (simp add: replace_metric_def fold_record_error_count write_value_def split: prod.splits)

lemma append_metric_fields:
  "registry (append_metric lim d p vs e) = registry e"
  "allocated (append_metric lim d p vs e) = allocated e"
  "metric_store (append_metric lim d p vs e) =
     (metric_store e)((identity d, p) \<mapsto>
        fst (validate lim ((case metric_store e (identity d, p) of None \<Rightarrow> [] | Some cur \<Rightarrow> cur)
                           @ fst (validate lim vs))))"
  by (simp_all add: append_metric_def fold_record_error_fields write_value_def getValue_def
        split: prod.splits)

lemma append_metric_count:
  "error_count (append_metric lim d p vs e) (i, k, q) =
     error_count e (i, k, q) +
       (if i = identity d \<and> q = p
        then count_list (snd (validate lim vs)) k +
             count_list (snd (validate lim
                ((case metric_store e (identity d, p) of None \<Rightarrow> [] | Some cur \<Rightarrow> cur)
                  @ fst (validate lim vs)))) k
        else 0)"
  by (auto simp: append_metric_def fold_record_error_count write_value_def getValue_def
        split: prod.splits)

lemma fold_replace_fields:
  "registry (fold (\<lambda>p. replace_metric lim d p vs) ps e) = registry e"
  "allocated (fold (\<lambda>p. replace_metric lim d p vs) ps e) = allocated e"
  by (induction ps arbitrary: e) (simp_all add: replace_metric_fields)

lemma fold_replace_store:
  "metric_store (fold (\<lambda>p. replace_metric lim d p vs) ps e) (i, q) =
     (if i = identity d \<and> q \<in> set ps then Some (fst (validate lim vs))
      else metric_store e (i, q))"
  by (induction ps arbitrary: e) (auto simp: replace_metric_fields)

lemma fold_replace_count:
  "error_count (fold (\<lambda>p. replace_metric lim d p vs) ps e) (i, k, q) =
     error_count e (i, k, q) +
       (if i = identity d then count_list ps q * count_list (snd (validate lim vs)) k else 0)"
  by (induction ps arbitrary: e) (auto simp: replace_metric_count)

lemma fold_append_fields:
  "registry (fold (\<lambda>p. append_metric lim d p vs) ps e) = registry e"
  "allocated (fold (\<lambda>p. append_metric lim d p vs) ps e) = allocated e"
  by (induction ps arbitrary: e) (simp_all add: append_metric_fields)

lemma fold_append_store:
  "distinct ps \<Longrightarrow>
   metric_store (fold (\<lambda>p. append_metric lim d p vs) ps e) (i, q) =
     (if i = identity d \<and> q \<in> set ps
      then Some (fst (validate lim
             ((case metric_store e (i, q) of None \<Rightarrow> [] | Some cur \<Rightarrow> cur)
               @ fst (validate lim vs))))
      else metric_store e (i, q))"
  by (induction ps arbitrary: e) (auto simp: append_metric_fields)

lemma fold_append_count:
  "distinct ps \<Longrightarrow>
   error_count (fold (\<lambda>p. append_metric lim d p vs) ps e) (i, k, q) =
     error_count e (i, k, q) +
       (if i = identity d \<and> q \<in> set ps
        then count_list (snd (validate lim vs)) k +
             count_list (snd (validate lim
                ((case metric_store e (i, q) of None \<Rightarrow> [] | Some cur \<Rightarrow> cur)
                  @ fst (validate lim vs)))) k
        else 0)"
  by (induction ps arbitrary: e) (auto simp: append_metric_count append_metric_fields)

lemma fold_append_keeps:
  "metric_store e x \<noteq> None \<Longrightarrow>
   metric_store (fold (\<lambda>p. append_metric lim d p vs) ps e) x \<noteq> None"
  by (induction ps arbitrary: e) (simp_all add: append_metric_fields)

lemma fold_append_present:
  "q \<in> set ps \<Longrightarrow>
   metric_store (fold (\<lambda>p. append_metric lim d p vs) ps e) (identity d, q) \<noteq> None"
proof (induction ps arbitrary: e)
  case Nil
  then show ?case by simp
next
  case (Cons x ps)
  show ?case
  proof (cases "x = q")
    case True
    have "metric_store (append_metric lim d q vs e) (identity d, q) \<noteq> None"
      by (simp add: append_metric_fields)
    then show ?thesis using True by (simp add: fold_append_keeps)
  next
    case False
    with Cons.prems have "q \<in> set ps" by simp
    then show ?thesis using Cons.IH by simp
  qed
qed

lemma count_list_distinct:
  "distinct ps \<Longrightarrow> count_list ps q = (if q \<in> set ps then 1 else 0)"
  by (induction ps) auto

section \<open>The queue and its worker\<close>

lemma logged_fields [simp]:
  "core (logged c w) = core w" "queue (logged c w) = queue w"
  "ffi_log (logged c w) = ffi_log w @ [c]"
  by (simp_all add: logged_def)

lemma run_task_queue: "queue (run_task lim t w) = queue w"
  by (cases t) (simp_all add: lib_glean_string_list_add_def lib_glean_string_list_set_def
      split: option.splits)

lemma run_task_queue_update:
  "run_task lim t (w\<lparr>queue := q\<rparr>) = (run_task lim t w)\<lparr>queue := q\<rparr>"
  by (cases t) (simp_all add: lib_glean_string_list_add_def lib_glean_string_list_set_def
      logged_def split: option.splits)

lemma worker_steps_end:
  "worker_steps lim (Suc n) w = worker_step lim (worker_steps lim n w)"
  by (induction n arbitrary: w) simp_all

lemma worker_step_queue: "queue (worker_step lim w) = tl (queue w)"
  by (simp add: worker_step_def run_task_queue split: list.splits)

lemma worker_steps_queue: "queue (worker_steps lim n w) = drop n (queue w)"
  by (induction n arbitrary: w) (simp_all add: worker_step_queue drop_Suc drop_tl)

lemma drain_queue: "queue (drain lim w) = []"
  by (simp add: drain_def worker_steps_queue)

lemma worker_step_launch:
  "queue w \<noteq> [] \<Longrightarrow>
   worker_step lim (Dispatcher_launch t w) = Dispatcher_launch t (worker_step lim w)"
  by (cases "queue w")
     (simp_all add: worker_step_def Dispatcher_launch_def run_task_queue_update run_task_queue)

lemma worker_steps_launch:
  "n \<le> length (queue w) \<Longrightarrow>
   worker_steps lim n (Dispatcher_launch t w) = Dispatcher_launch t (worker_steps lim n w)"
proof (induction n arbitrary: w)
  case 0
  show ?case by simp
next
  case (Suc n)
  then have ne: "queue w \<noteq> []" by auto
  have "n \<le> length (queue (worker_step lim w))"
    using Suc.prems by (simp add: worker_step_queue)
  then show ?case using Suc.IH [of "worker_step lim w"] ne
    by (simp add: worker_step_launch)
qed

lemma queue_reset: "queue w = [] \<Longrightarrow> w\<lparr>queue := []\<rparr> = w"
  by (cases w) simp

lemma worker_step_launch_empty:
  "queue w = [] \<Longrightarrow> worker_step lim (Dispatcher_launch t w) = run_task lim t w"
  by (simp add: worker_step_def Dispatcher_launch_def queue_reset)

lemma drain_launch: "drain lim (Dispatcher_launch t w) = run_task lim t (drain lim w)"
proof -
  have "drain lim (Dispatcher_launch t w)
      = worker_steps lim (Suc (length (queue w))) (Dispatcher_launch t w)"
    by (simp add: drain_def Dispatcher_launch_def)
  also have "\<dots> = worker_step lim (worker_steps lim (length (queue w)) (Dispatcher_launch t w))"
    by (rule worker_steps_end)
  also have "\<dots> = worker_step lim (Dispatcher_launch t (drain lim w))"
    by (simp add: worker_steps_launch drain_def)
  also have "\<dots> = run_task lim t (drain lim w)"
    by (rule worker_step_launch_empty) (rule drain_queue)
  finally show ?thesis .
qed

lemma drain_worker_step: "drain lim (worker_step lim w) = drain lim w"
proof (cases "queue w")
  case Nil
  then show ?thesis by (simp add: worker_step_def)
next
  case (Cons t ts)
  then have "length (queue (worker_step lim w)) = length ts"
    by (simp add: worker_step_queue)
  then show ?thesis using Cons by (simp add: drain_def)
qed

lemma drain_happen: "drain lim (happen lim ev w) = applied lim ev (drain lim w)"
  by (cases ev) (simp_all add: add_def set_metric_def drain_launch drain_worker_step)

lemma drain_history:
  "drain lim (fold (happen lim) evs w) = fold (applied lim) evs (drain lim w)"
  by (induction evs arbitrary: w) (simp_all add: drain_happen)

section \<open>The validator\<close>

lemma validate_fst:
  "fst (validate lim xs) =
     map (take (MAX_STRING_LENGTH lim)) (take (MAX_LIST_LENGTH lim) xs)"
  by (simp add: validate_def Let_def)

lemma validate_within:
  "length xs \<le> MAX_LIST_LENGTH lim \<Longrightarrow> \<forall>s\<in>set xs. length s \<le> MAX_STRING_LENGTH lim \<Longrightarrow>
   validate lim xs = (xs, [])"
  by (simp add: validate_def Let_def filter_empty_conv map_idI not_less)

lemma validate_too_long:
  assumes a: "length xs > MAX_LIST_LENGTH lim"
    and c: "\<forall>s\<in>set (take (MAX_LIST_LENGTH lim) xs). length s \<le> MAX_STRING_LENGTH lim"
  shows "validate lim xs = (take (MAX_LIST_LENGTH lim) xs, [InvalidOverflow])"
proof -
  have "filter (\<lambda>s. length s > MAX_STRING_LENGTH lim) (take (MAX_LIST_LENGTH lim) xs) = []"
    using c by (simp add: filter_empty_conv not_less)
  moreover have "map (take (MAX_STRING_LENGTH lim)) (take (MAX_LIST_LENGTH lim) xs)
      = take (MAX_LIST_LENGTH lim) xs"
    using c by (simp add: map_idI)
  ultimately show ?thesis using a by (simp add: validate_def Let_def)
qed

lemma validate_errors_overflow_only:
  "kind \<noteq> InvalidOverflow \<Longrightarrow> count_list (snd (validate lim xs)) kind = 0"
  by (auto simp: validate_def Let_def count_list_0_iff)

lemma count_list_const: "count_list (map (\<lambda>_. k) xs) k = length xs"
  by (induction xs) simp_all

lemma validate_overflow_count:
  "count_list (snd (validate lim xs)) InvalidOverflow =
     (if length xs > MAX_LIST_LENGTH lim then 1 else 0)
     + length (filter (\<lambda>s. length s > MAX_STRING_LENGTH lim) (take (MAX_LIST_LENGTH lim) xs))"
  by (simp add: validate_def Let_def count_list_const)

section \<open>A task run on a registered metric\<close>

lemma run_task_registry: "registry (core (run_task lim t w)) = registry (core w)"
  by (cases t)
     (simp_all add: lib_glean_string_list_add_def lib_glean_string_list_set_def
        fold_append_fields fold_replace_fields split: option.splits)

lemma run_task_allocated: "allocated (core (run_task lim t w)) = allocated (core w)"
  by (cases t)
     (simp_all add: lib_glean_string_list_add_def lib_glean_string_list_set_def
        fold_append_fields fold_replace_fields split: option.splits)

lemma worker_step_registry: "registry (core (worker_step lim w)) = registry (core w)"
  by (simp add: worker_step_def run_task_registry split: list.splits)

lemma worker_steps_registry: "registry (core (worker_steps lim n w)) = registry (core w)"
  by (induction n arbitrary: w) (simp_all add: worker_step_registry)

lemma drain_registry: "registry (core (drain lim w)) = registry (core w)"
  by (simp add: drain_def worker_steps_registry)

lemma drain_registered: "registered self (drain lim w) = registered self w"
  by (simp add: registered_def drain_registry)

lemma drain_empty: "queue w = [] \<Longrightarrow> drain lim w = w"
  by (simp add: drain_def)

lemma drain_worker_steps: "drain lim (worker_steps lim k w) = drain lim w"
  by (induction k arbitrary: w) (simp_all add: drain_worker_step)

lemma run_set_store:
  "registry (core w) (self_handle self) = Some d \<Longrightarrow>
   metric_store (core (run_task lim (Set_closure self vs) w)) (i, q) =
     (if i = identity d \<and> q \<in> set (def_sendInPings d) then Some (fst (validate lim vs))
      else metric_store (core w) (i, q))"
  by (simp add: lib_glean_string_list_set_def ffi_encode_vec_string_def fold_replace_store)

lemma run_set_count:
  "registry (core w) (self_handle self) = Some d \<Longrightarrow>
   error_count (core (run_task lim (Set_closure self vs) w)) (i, k, q) =
     error_count (core w) (i, k, q) +
       (if i = identity d
        then count_list (def_sendInPings d) q * count_list (snd (validate lim vs)) k else 0)"
  by (simp add: lib_glean_string_list_set_def ffi_encode_vec_string_def fold_replace_count)

lemma run_add_store:
  "registry (core w) (self_handle self) = Some d \<Longrightarrow> distinct (def_sendInPings d) \<Longrightarrow>
   metric_store (core (run_task lim (Add_closure self v) w)) (i, q) =
     (if i = identity d \<and> q \<in> set (def_sendInPings d)
      then Some (fst (validate lim
             ((case metric_store (core w) (i, q) of None \<Rightarrow> [] | Some cur \<Rightarrow> cur)
               @ fst (validate lim [v]))))
      else metric_store (core w) (i, q))"
  by (simp add: lib_glean_string_list_add_def ffi_encode_string_def fold_append_store)

lemma run_add_count:
  "registry (core w) (self_handle self) = Some d \<Longrightarrow> distinct (def_sendInPings d) \<Longrightarrow>
   error_count (core (run_task lim (Add_closure self v) w)) (i, k, q) =
     error_count (core w) (i, k, q) +
       (if i = identity d \<and> q \<in> set (def_sendInPings d)
        then count_list (snd (validate lim [v])) k +
             count_list (snd (validate lim
                ((case metric_store (core w) (i, q) of None \<Rightarrow> [] | Some cur \<Rightarrow> cur)
                  @ fst (validate lim [v])))) k
        else 0)"
  by (simp add: lib_glean_string_list_add_def ffi_encode_string_def fold_append_count)

lemma run_add_present:
  "registry (core w) (self_handle self) = Some d \<Longrightarrow> q \<in> set (def_sendInPings d) \<Longrightarrow>
   metric_store (core (run_task lim (Add_closure self v) w)) (identity d, q) \<noteq> None"
  by (simp add: lib_glean_string_list_add_def ffi_encode_string_def fold_append_present)

declare run_task.simps [simp del]

lemma lookup_after_set:
  assumes "registered self w" "p \<in> set (self_send_in_pings self)"
  shows "lookup_value (core (run_task lim (Set_closure self vs) w)) (self_handle self) p
           = Some (fst (validate lim vs))"
proof -
  from assms(1) obtain d where d: "registry (core w) (self_handle self) = Some d"
    and ps: "def_sendInPings d = self_send_in_pings self"
    by (auto simp: registered_def split: option.splits)
  show ?thesis using d ps assms(2)
    by (simp add: lookup_value_def run_task_registry getValue_def run_set_store [OF d])
qed

lemma errors_after_set:
  assumes "registered self w"
  shows "lookup_errors (core (run_task lim (Set_closure self vs) w)) (self_handle self) k p
           = lookup_errors (core w) (self_handle self) k p
             + count_list (self_send_in_pings self) p * count_list (snd (validate lim vs)) k"
proof -
  from assms(1) obtain d where d: "registry (core w) (self_handle self) = Some d"
    and ps: "def_sendInPings d = self_send_in_pings self"
    by (auto simp: registered_def split: option.splits)
  show ?thesis using d ps
    by (simp add: lookup_errors_def run_task_registry count_errors_def run_set_count [OF d])
qed

lemma lookup_after_add:
  assumes "registered self w" "p \<in> set (self_send_in_pings self)"
    and "distinct (self_send_in_pings self)"
  shows "lookup_value (core (run_task lim (Add_closure self v) w)) (self_handle self) p
           = Some (fst (validate lim
               ((case lookup_value (core w) (self_handle self) p of None \<Rightarrow> [] | Some cur \<Rightarrow> cur)
                 @ fst (validate lim [v]))))"
proof -
  from assms(1) obtain d where d: "registry (core w) (self_handle self) = Some d"
    and ps: "def_sendInPings d = self_send_in_pings self"
    by (auto simp: registered_def split: option.splits)
  have ds: "distinct (def_sendInPings d)" using assms(3) ps by simp
  show ?thesis using d ps assms(2)
    by (simp add: lookup_value_def run_task_registry getValue_def run_add_store [OF d ds])
qed

lemma present_after_add:
  assumes "registered self w" "p \<in> set (self_send_in_pings self)"
  shows "lookup_value (core (run_task lim (Add_closure self v) w)) (self_handle self) p
           \<noteq> None"
proof -
  from assms(1) obtain d where d: "registry (core w) (self_handle self) = Some d"
    and ps: "def_sendInPings d = self_send_in_pings self"
    by (auto simp: registered_def split: option.splits)
  have "p \<in> set (def_sendInPings d)" using assms(2) ps by simp
  from run_add_present [OF d this] show ?thesis using d
    by (simp add: lookup_value_def run_task_registry getValue_def)
qed

lemma errors_after_add:
  assumes "registered self w" "p \<in> set (self_send_in_pings self)"
    and "distinct (self_send_in_pings self)"
  shows "lookup_errors (core (run_task lim (Add_closure self v) w)) (self_handle self) k p
           = lookup_errors (core w) (self_handle self) k p
             + count_list (snd (validate lim [v])) k
             + count_list (snd (validate lim
                 ((case lookup_value (core w) (self_handle self) p of None \<Rightarrow> [] | Some cur \<Rightarrow> cur)
                   @ fst (validate lim [v])))) k"
proof -
  from assms(1) obtain d where d: "registry (core w) (self_handle self) = Some d"
    and ps: "def_sendInPings d = self_send_in_pings self"
    by (auto simp: registered_def split: option.splits)
  have ds: "distinct (def_sendInPings d)" using assms(3) ps by simp
  show ?thesis using d ps assms(2)
    by (simp add: lookup_errors_def lookup_value_def run_task_registry count_errors_def
        getValue_def run_add_count [OF d ds])
qed

lemma drain_set_metric:
  "\<not> self_disabled self \<Longrightarrow>
   drain lim (snd (set_metric self vs w)) = run_task lim (Set_closure self vs) (drain lim w)"
  by (simp add: set_metric_def drain_launch)

lemma drain_add:
  "\<not> self_disabled self \<Longrightarrow>
   drain lim (snd (add self v w)) = run_task lim (Add_closure self v) (drain lim w)"
  by (simp add: add_def drain_launch)

lemma add_add_set_engine:
  assumes d: "registry (core w) (self_handle self) = Some d"
    and ds: "distinct (def_sendInPings d)"
    and empty: "\<forall>p\<in>set (def_sendInPings d).
        metric_store (core w) (identity d, p) = None
        \<or> metric_store (core w) (identity d, p) = Some []"
    and a: "length a \<le> MAX_STRING_LENGTH lim" and b: "length b \<le> MAX_STRING_LENGTH lim"
    and L: "1 \<le> MAX_LIST_LENGTH lim"
  shows "core (run_task lim (Add_closure self b) (run_task lim (Add_closure self a) w))
       = core (run_task lim (Set_closure self [a, b]) w)"
proof -
  let ?w1 = "run_task lim (Add_closure self a) w"
  have d1: "registry (core ?w1) (self_handle self) = Some d"
    using d by (simp add: run_task_registry)
  have va: "validate lim [a] = ([a], [])" using a L by (simp add: validate_within)
  have vb: "fst (validate lim [b]) = [b]" "snd (validate lim [b]) = []"
    using b L by (simp_all add: validate_within)
  have s1: "metric_store (core ?w1) (i, q) =
      (if i = identity d \<and> q \<in> set (def_sendInPings d) then Some [a]
       else metric_store (core w) (i, q))" for i q
    using empty va by (auto simp: run_add_store [OF d ds])
  have e1: "error_count (core ?w1) x = error_count (core w) x" for x
  proof -
    obtain i k q where x: "x = (i, k, q)" by (cases x) auto
    show ?thesis unfolding x using empty va by (auto simp: run_add_count [OF d ds])
  qed
  have store: "metric_store (core (run_task lim (Add_closure self b) ?w1))
      = metric_store (core (run_task lim (Set_closure self [a, b]) w))"
  proof
    fix x :: "metric_id \<times> string"
    obtain i q where x: "x = (i, q)" by (cases x) auto
    show "metric_store (core (run_task lim (Add_closure self b) ?w1)) x
        = metric_store (core (run_task lim (Set_closure self [a, b]) w)) x"
      unfolding x by (simp add: run_add_store [OF d1 ds] run_set_store [OF d] s1 vb)
  qed
  have count: "error_count (core (run_task lim (Add_closure self b) ?w1))
      = error_count (core (run_task lim (Set_closure self [a, b]) w))"
  proof
    fix x :: "metric_id \<times> ErrorType \<times> string"
    obtain i k q where x: "x = (i, k, q)" by (cases x) auto
    show "error_count (core (run_task lim (Add_closure self b) ?w1)) x
        = error_count (core (run_task lim (Set_closure self [a, b]) w)) x"
      unfolding x
      by (simp add: run_add_count [OF d1 ds] run_set_count [OF d] s1 e1 vb
          count_list_distinct [OF ds])
  qed
  show ?thesis
    by (rule engine.equality)
       (simp_all add: run_task_registry run_task_allocated store count)
qed

lemma dispose_twice: "dispose h (dispose h e) = dispose h e"
  by (simp add: dispose_def)

section \<open>The test methods on a given ping\<close>

lemma test_has_value_Some:
  "test_has_value self (Some p) w =
     (Inr (lookup_value (core w) (self_handle self) p \<noteq> None),
      logged (Call_string_list_test_has_value (self_handle self) p) w)"
  by (simp add: test_has_value_def default_ping_def lib_glean_string_list_test_has_value_def
      ffi_encode_string_def py_bool_def split: option.splits)

lemma test_get_num_recorded_errors_Some:
  "test_get_num_recorded_errors self kind (Some p) w =
     (Inr (int (lookup_errors (core w) (self_handle self) kind p)),
      logged (Call_string_list_test_get_num_recorded_errors (self_handle self) kind p) w)"
  by (simp add: test_get_num_recorded_errors_def default_ping_def
      lib_glean_string_list_test_get_num_recorded_errors_def ffi_encode_string_def)

lemma test_get_value_Some:
  "test_get_value self (Some p) w =
     (case lookup_value (core w) (self_handle self) p of
        None \<Rightarrow>
          (Inl ValueError, logged (Call_string_list_test_has_value (self_handle self) p) w)
      | Some xs \<Rightarrow>
          (Inr (PyList xs),
           logged (Call_string_list_test_get_value_as_json_string (self_handle self) p)
             (logged (Call_string_list_test_has_value (self_handle self) p) w)))"
  by (simp add: test_get_value_def default_ping_def test_has_value_Some
      lib_glean_string_list_test_get_value_as_json_string_def ffi_encode_string_def
      ffi_decode_string_def json_loads_array split: option.splits)

lemma test_None_first:
  "self_send_in_pings self = p # ps \<Longrightarrow>
     test_has_value self None w = test_has_value self (Some p) w
     \<and> test_get_value self None w = test_get_value self (Some p) w
     \<and> test_get_num_recorded_errors self kind None w
         = test_get_num_recorded_errors self kind (Some p) w"
  by (simp add: test_has_value_def test_get_value_def test_get_num_recorded_errors_def
      default_ping_def)

section \<open>The example metric\<close>

lemma list1_eq:
  "list1 = \<lparr>self_disabled = False, self_send_in_pings = [''metrics''], self_handle = 1\<rparr>"
  by (simp add: list1_def StringListMetricType_init_def lib_glean_new_string_list_metric_def
      register_def new_world_def new_engine_def ffi_encode_string_def ffi_encode_vec_string_def)

lemma list1_off_eq:
  "list1_off = \<lparr>self_disabled = True, self_send_in_pings = [''metrics''], self_handle = 1\<rparr>"
  by (simp add: list1_off_def StringListMetricType_init_def lib_glean_new_string_list_metric_def
      register_def new_world_def new_engine_def ffi_encode_string_def ffi_encode_vec_string_def)

lemma list1_world_eq:
  "list1_world =
     \<lparr>core = \<lparr>registry = [1 \<mapsto> \<lparr>def_disabled = False, def_category = ''tags'',
                                def_name = ''list1'', def_lifetime = Ping,
                                def_sendInPings = [''metrics'']\<rparr>],
              allocated = 1, metric_store = Map.empty, error_count = (\<lambda>_. 0)\<rparr>,
      queue = [],
      ffi_log = [Call_new_string_list_metric ''tags'' ''list1'' [''metrics''] 1 Ping False]\<rparr>"
  by (simp add: list1_world_def StringListMetricType_init_def
      lib_glean_new_string_list_metric_def register_def new_world_def new_engine_def
      ffi_encode_string_def ffi_encode_vec_string_def logged_def)

lemma list1_registered: "registered list1 list1_world"
  by (simp add: registered_def list1_eq list1_world_eq)

lemma list1_fresh:
  "lookup_value (core list1_world) h p = None" "lookup_errors (core list1_world) h k p = 0"
  by (simp_all add: list1_world_eq lookup_value_def lookup_errors_def getValue_def
      count_errors_def split: option.splits)

lemma list1_distinct: "distinct (self_send_in_pings list1)"
  by (simp add: list1_eq)

lemma list2_eq:
  "list2 = \<lparr>self_disabled = False, self_send_in_pings = [''metrics'', ''metrics''],
            self_handle = 1\<rparr>"
  by (simp add: list2_def StringListMetricType_init_def lib_glean_new_string_list_metric_def
      register_def new_world_def new_engine_def ffi_encode_string_def ffi_encode_vec_string_def)

lemma list2_world_eq:
  "list2_world =
     \<lparr>core = \<lparr>registry = [1 \<mapsto> \<lparr>def_disabled = False, def_category = ''tags'',
                                def_name = ''list2'', def_lifetime = Ping,
                                def_sendInPings = [''metrics'', ''metrics'']\<rparr>],
              allocated = 1, metric_store = Map.empty, error_count = (\<lambda>_. 0)\<rparr>,
      queue = [],
      ffi_log = [Call_new_string_list_metric ''tags'' ''list2'' [''metrics'', ''metrics''] 2
                   Ping False]\<rparr>"
  by (simp add: list2_world_def StringListMetricType_init_def
      lib_glean_new_string_list_metric_def register_def new_world_def new_engine_def
      ffi_encode_string_def ffi_encode_vec_string_def logged_def)

lemma list2_registered: "registered list2 list2_world"
  by (simp add: registered_def list2_eq list2_world_eq)

lemma list2_fresh:
  "lookup_value (core list2_world) h p = None" "lookup_errors (core list2_world) h k p = 0"
  by (simp_all add: list2_world_eq lookup_value_def lookup_errors_def getValue_def
      count_errors_def split: option.splits)

section \<open>The claims\<close>

subsection \<open>Reading and the queue\<close>

text \<open>
  Claim C1 says that every test method first drains the dispatcher queue, so that it
  observes all earlier \<open>add\<close> and \<open>set\<close> calls. The methods do not touch the
  dispatcher. In the scenario of the spec, right after \<open>add("x")\<close> the method
  \<open>test_has_value\<close> answers \<open>False\<close>, \<open>test_get_value\<close> raises, and the task
  is still in the queue; only after the worker has drained the queue is the answer
  \<open>True\<close>.
\<close>

theorem test_has_value_before_drain_counterexample:
  "fst (test_has_value list1 None (snd (add list1 ''x'' list1_world))) = Inr False
   \<and> queue (snd (test_has_value list1 None (snd (add list1 ''x'' list1_world))))
       = [Add_closure list1 ''x'']
   \<and> fst (test_get_value list1 None (snd (add list1 ''x'' list1_world))) = Inl ValueError
   \<and> fst (test_has_value list1 None (drain limits_20_50 (snd (add list1 ''x'' list1_world))))
       = Inr True"
proof -
  have en: "\<not> self_disabled list1" and ps: "self_send_in_pings list1 = [''metrics'']"
    by (simp_all add: list1_eq)
  have m: "''metrics'' \<in> set (self_send_in_pings list1)" by (simp add: ps)
  have q: "queue list1_world = []" by (simp add: list1_world_eq)
  have w1: "snd (add list1 ''x'' list1_world) = Dispatcher_launch (Add_closure list1 ''x'') list1_world"
    using en by (simp add: add_def)
  have c1: "core (Dispatcher_launch (Add_closure list1 ''x'') list1_world) = core list1_world"
    and q1: "queue (Dispatcher_launch (Add_closure list1 ''x'') list1_world) = [Add_closure list1 ''x'']"
    using q by (simp_all add: Dispatcher_launch_def)
  have d: "drain limits_20_50 (snd (add list1 ''x'' list1_world))
      = run_task limits_20_50 (Add_closure list1 ''x'') list1_world"
    using drain_add [OF en] drain_empty [OF q] by simp
  have l: "lookup_value (core (run_task limits_20_50 (Add_closure list1 ''x'') list1_world))
      (self_handle list1) ''metrics'' \<noteq> None"
    using list1_registered m by (rule present_after_add)
  show ?thesis
    unfolding d using test_None_first [OF ps] l
    by (simp add: w1 test_has_value_Some test_get_value_Some c1 q1 list1_fresh)
qed

text \<open>
  Claim C1, as the code has it: no test method changes the queue or the engine; each
  returns what the engine holds at the moment of the call, that is the effect of the
  tasks the worker has run so far. The reads observe all earlier recording calls once
  the worker has drained the queue: whatever the interleaving of recording calls and
  worker steps, draining leaves the state in which every submitted task has been applied
  in submission order.
\<close>

theorem test_methods_read_without_draining:
  "queue (snd (test_has_value self ping w)) = queue w
   \<and> core (snd (test_has_value self ping w)) = core w
   \<and> queue (snd (test_get_value self ping w)) = queue w
   \<and> core (snd (test_get_value self ping w)) = core w
   \<and> queue (snd (test_get_num_recorded_errors self kind ping w)) = queue w
   \<and> core (snd (test_get_num_recorded_errors self kind ping w)) = core w
   \<and> fst (test_has_value self (Some p) w)
       = Inr (lookup_value (core w) (self_handle self) p \<noteq> None)
   \<and> fst (test_get_value self (Some p) w)
       = (case lookup_value (core w) (self_handle self) p of
            None \<Rightarrow> Inl ValueError | Some xs \<Rightarrow> Inr (PyList xs))
   \<and> fst (test_get_num_recorded_errors self kind (Some p) w)
       = Inr (int (lookup_errors (core w) (self_handle self) kind p))
   \<and> drain lim (fold (happen lim) evs w) = fold (applied lim) evs (drain lim w)"
proof -
  have a: "queue (snd (test_has_value self ping w)) = queue w
      \<and> core (snd (test_has_value self ping w)) = core w"
    by (simp add: test_has_value_def lib_glean_string_list_test_has_value_def
        split: sum.splits)
  have b: "queue (snd (test_get_num_recorded_errors self kind ping w)) = queue w
      \<and> core (snd (test_get_num_recorded_errors self kind ping w)) = core w"
    by (simp add: test_get_num_recorded_errors_def
        lib_glean_string_list_test_get_num_recorded_errors_def split: sum.splits)
  have c: "queue (snd (test_get_value self ping w)) = queue w
      \<and> core (snd (test_get_value self ping w)) = core w"
  proof (cases "default_ping self ping")
    case (Inl err)
    then show ?thesis by (simp add: test_get_value_def)
  next
    case (Inr q)
    then have "test_get_value self ping w = test_get_value self (Some q) w"
      by (simp add: test_get_value_def default_ping_def)
    then show ?thesis by (simp add: test_get_value_Some split: option.splits)
  qed
  have d: "fst (test_get_value self (Some p) w)
       = (case lookup_value (core w) (self_handle self) p of
            None \<Rightarrow> Inl ValueError | Some xs \<Rightarrow> Inr (PyList xs))"
    by (simp add: test_get_value_Some split: option.splits)
  show ?thesis
    using a b c d
    by (simp add: test_has_value_Some test_get_num_recorded_errors_Some drain_history)
qed

text \<open>
  Claim C2: for every metric and ping name, \<open>test_get_value\<close> raises
  \<^verbatim>\<open>ValueError("metric has no value")\<close> exactly when the engine holds no value for
  the ping, and returns the stored list of strings otherwise; a metric just constructed
  in a fresh world has no value; and the error comes from this method only: \<open>add\<close>
  and \<open>set\<close> return normally and the two other test methods never raise it.
\<close>

theorem test_get_value_raises_iff_no_value:
  "fst (test_get_value self (Some p) w) =
     (case lookup_value (core w) (self_handle self) p of
        None \<Rightarrow> Inl ValueError
      | Some xs \<Rightarrow> Inr (PyList xs))
   \<and> fst (test_get_value
            (fst (StringListMetricType_init disabled category lifetime name pings new_world))
            (Some p)
            (snd (StringListMetricType_init disabled category lifetime name pings new_world)))
       = Inl ValueError
   \<and> fst (add self v w) = Inr ()
   \<and> fst (set_metric self vs w) = Inr ()
   \<and> fst (test_has_value self ping w) \<noteq> Inl ValueError
   \<and> fst (test_get_num_recorded_errors self kind ping w) \<noteq> Inl ValueError"
proof -
  have a: "fst (test_get_value self (Some p) w) =
     (case lookup_value (core w) (self_handle self) p of
        None \<Rightarrow> Inl ValueError
      | Some xs \<Rightarrow> Inr (PyList xs))" for self w
    by (simp add: test_get_value_Some split: option.splits)
  have b: "lookup_value
      (core (snd (StringListMetricType_init disabled category lifetime name pings new_world)))
      h p = None" for h
    by (simp add: StringListMetricType_init_def lib_glean_new_string_list_metric_def
        register_def new_world_def new_engine_def lookup_value_def getValue_def
        split: option.splits)
  have c: "fst (add self v w) = Inr ()" "fst (set_metric self vs w) = Inr ()"
    by (simp_all add: add_def set_metric_def)
  have d: "fst (test_has_value self ping w) \<noteq> Inl ValueError"
    by (simp add: test_has_value_def default_ping_def lib_glean_string_list_test_has_value_def
        split: option.splits list.splits)
  have e: "fst (test_get_num_recorded_errors self kind ping w) \<noteq> Inl ValueError"
    by (simp add: test_get_num_recorded_errors_def default_ping_def
        lib_glean_string_list_test_get_num_recorded_errors_def
        split: option.splits list.splits)
  show ?thesis using a b c d e by simp
qed

theorem test_get_value_raises_iff_no_value_witness:
  "fst (test_get_value list1 (Some ''metrics'') list1_world) = Inl ValueError
   \<and> fst (test_get_value list1 (Some ''metrics'')
        (drain limits_20_50 (snd (add list1 ''y'' (snd (add list1 ''x'' list1_world))))))
       = Inr (PyList [''x'', ''y''])"
proof -
  have en: "\<not> self_disabled list1"
    and m: "''metrics'' \<in> set (self_send_in_pings list1)"
    by (simp_all add: list1_eq)
  have q: "queue list1_world = []" by (simp add: list1_world_eq)
  let ?w1 = "run_task limits_20_50 (Add_closure list1 ''x'') list1_world"
  have d: "drain limits_20_50 (snd (add list1 ''y'' (snd (add list1 ''x'' list1_world))))
      = run_task limits_20_50 (Add_closure list1 ''y'') ?w1"
    using en by (simp add: drain_add drain_empty [OF q])
  have r1: "registered list1 ?w1"
    using list1_registered by (simp add: registered_def run_task_registry)
  have l1: "lookup_value (core ?w1) (self_handle list1) ''metrics'' = Some [''x'']"
    using lookup_after_add [OF list1_registered m list1_distinct, of limits_20_50 "''x''"]
    by (simp add: list1_fresh validate_fst limits_20_50_def)
  have l2: "lookup_value (core (run_task limits_20_50 (Add_closure list1 ''y'') ?w1))
      (self_handle list1) ''metrics'' = Some [''x'', ''y'']"
    using lookup_after_add [OF r1 m list1_distinct, of limits_20_50 "''y''", unfolded l1]
    by (simp add: validate_fst limits_20_50_def)
  show ?thesis
    using test_get_value_raises_iff_no_value [of list1 "''metrics''" list1_world]
      test_get_value_raises_iff_no_value [of list1 "''metrics''"
        "run_task limits_20_50 (Add_closure list1 ''y'') ?w1"]
    by (simp add: d l2 list1_fresh)
qed

subsection \<open>Recording\<close>

text \<open>
  Claim C3: on a metric whose \<open>disabled\<close> flag is set, \<open>add\<close> and \<open>set\<close>
  return at once and leave the world as it was: nothing is put in the dispatcher
  queue, no native call is made, and what \<open>test_has_value\<close> and
  \<open>test_get_num_recorded_errors\<close> answer for any ping and any error kind after the
  queue has been drained is what they would have answered without the call.
\<close>

theorem disabled_add_set_are_noops:
  "self_disabled self \<Longrightarrow>
     add self v w = (Inr (), w) \<and> set_metric self vs w = (Inr (), w)
     \<and> queue (snd (add self v w)) = queue w \<and> queue (snd (set_metric self vs w)) = queue w
     \<and> test_has_value self ping (drain lim (snd (add self v w)))
         = test_has_value self ping (drain lim w)
     \<and> test_has_value self ping (drain lim (snd (set_metric self vs w)))
         = test_has_value self ping (drain lim w)
     \<and> test_get_num_recorded_errors self kind ping (drain lim (snd (add self v w)))
         = test_get_num_recorded_errors self kind ping (drain lim w)
     \<and> test_get_num_recorded_errors self kind ping (drain lim (snd (set_metric self vs w)))
         = test_get_num_recorded_errors self kind ping (drain lim w)"
  by (simp add: add_def set_metric_def)

theorem disabled_add_set_are_noops_witness:
  "self_disabled list1_off
   \<and> add list1_off ''x'' list1_off_world = (Inr (), list1_off_world)
   \<and> set_metric list1_off [''x'', ''y''] list1_off_world = (Inr (), list1_off_world)
   \<and> queue (snd (add list1_off ''x'' list1_off_world)) = []"
proof -
  have d: "self_disabled list1_off" by (simp add: list1_off_eq)
  have q: "queue list1_off_world = []"
    by (simp add: list1_off_world_def StringListMetricType_init_def
        lib_glean_new_string_list_metric_def register_def new_world_def logged_def)
  show ?thesis
    using d q disabled_add_set_are_noops [OF d, of "''x''" list1_off_world "[''x'', ''y'']"]
    by simp
qed

text \<open>
  Claim C4 says that for every list \<open>v\<close> longer than \<open>MAX_LIST_LENGTH\<close>,
  \<open>set(v)\<close> stores exactly the first \<open>MAX_LIST_LENGTH\<close> elements of \<open>v\<close> and
  records exactly one \<open>InvalidOverflow\<close> for each destination ping. It fails in two
  ways. The validator also cuts every kept element longer than \<open>MAX_STRING_LENGTH\<close>
  and counts one error for each: with the limits 20 and 50, a list of 21 strings of 51
  characters is stored as 20 strings of 50 characters, which are not the first 20
  elements of the list, and 21 errors are recorded. And the write is made once for every
  entry of \<open>send_in_pings\<close>: on a metric that names the ping \<open>metrics\<close> twice, a
  list of 21 short strings records 2 errors for that ping.
\<close>

theorem set_longer_than_limit_counterexample:
  "fst (test_get_value list1 None
         (drain limits_20_50
            (snd (set_metric list1 (replicate 21 (replicate 51 CHR ''a'')) list1_world))))
     = Inr (PyList (replicate 20 (replicate 50 CHR ''a'')))
   \<and> replicate 20 (replicate 50 CHR ''a'') \<noteq> take 20 (replicate 21 (replicate 51 CHR ''a''))
   \<and> fst (test_get_num_recorded_errors list1 InvalidOverflow None
         (drain limits_20_50
            (snd (set_metric list1 (replicate 21 (replicate 51 CHR ''a'')) list1_world))))
     = Inr 21
   \<and> fst (test_get_num_recorded_errors list2 InvalidOverflow None
         (drain limits_20_50 (snd (set_metric list2 (replicate 21 ''a'') list2_world))))
     = Inr 2"
proof -
  let ?v = "replicate 21 (replicate 51 CHR ''a'')"
  let ?u = "replicate 21 ''a''"
  have en: "\<not> self_disabled list1" and ps: "self_send_in_pings list1 = [''metrics'']"
    by (simp_all add: list1_eq)
  have q: "queue list1_world = []" by (simp add: list1_world_eq)
  have d: "drain limits_20_50 (snd (set_metric list1 ?v list1_world))
      = run_task limits_20_50 (Set_closure list1 ?v) list1_world"
    using drain_set_metric [OF en] drain_empty [OF q] by simp
  have m: "''metrics'' \<in> set (self_send_in_pings list1)" by (simp add: ps)
  have f: "fst (validate limits_20_50 ?v) = replicate 20 (replicate 50 CHR ''a'')"
    by (simp add: validate_fst limits_20_50_def)
  have c: "count_list (snd (validate limits_20_50 ?v)) InvalidOverflow = 21"
    by (simp add: validate_overflow_count limits_20_50_def)
  have l: "lookup_value (core (run_task limits_20_50 (Set_closure list1 ?v) list1_world))
      (self_handle list1) ''metrics'' = Some (replicate 20 (replicate 50 CHR ''a''))"
    using lookup_after_set [OF list1_registered m, of limits_20_50 ?v] f by simp
  have e: "lookup_errors (core (run_task limits_20_50 (Set_closure list1 ?v) list1_world))
      (self_handle list1) InvalidOverflow ''metrics'' = 21"
    using errors_after_set [OF list1_registered, of limits_20_50 ?v InvalidOverflow "''metrics''"]
      c
    by (simp add: list1_fresh ps)
  have n: "replicate 20 (replicate 50 CHR ''a'') \<noteq> take 20 ?v"
    by simp
  have en2: "\<not> self_disabled list2"
    and ps2: "self_send_in_pings list2 = [''metrics'', ''metrics'']"
    by (simp_all add: list2_eq)
  have q2: "queue list2_world = []" by (simp add: list2_world_eq)
  have d2: "drain limits_20_50 (snd (set_metric list2 ?u list2_world))
      = run_task limits_20_50 (Set_closure list2 ?u) list2_world"
    using drain_set_metric [OF en2] drain_empty [OF q2] by simp
  have c2: "count_list (snd (validate limits_20_50 ?u)) InvalidOverflow = 1"
    by (simp add: validate_overflow_count limits_20_50_def)
  have e2: "lookup_errors (core (run_task limits_20_50 (Set_closure list2 ?u) list2_world))
      (self_handle list2) InvalidOverflow ''metrics'' = 2"
    using errors_after_set [OF list2_registered, of limits_20_50 ?u InvalidOverflow "''metrics''"]
      c2
    by (simp add: list2_fresh ps2)
  show ?thesis
    unfolding d d2 using test_None_first [OF ps] test_None_first [OF ps2] n
    by (simp add: test_get_value_Some test_get_num_recorded_errors_Some l e e2)
qed

text \<open>
  Claim C4, amended: on a registered, enabled metric, for every list \<open>v\<close> longer than
  \<open>MAX_LIST_LENGTH\<close> whose first \<open>MAX_LIST_LENGTH\<close> elements are each at most
  \<open>MAX_STRING_LENGTH\<close> long, once the queue has been drained \<open>set(v)\<close> has stored
  exactly the first \<open>MAX_LIST_LENGTH\<close> elements of \<open>v\<close>, in order, for every
  destination ping, and has added to the \<open>InvalidOverflow\<close> count of the ping one
  error for each time the ping is named in \<open>send_in_pings\<close> (exactly one for a ping
  named once); no count of another kind changes.
\<close>

theorem set_longer_than_limit_keeps_prefix:
  assumes "registered self w" and "\<not> self_disabled self"
    and "length v > MAX_LIST_LENGTH lim"
    and "\<forall>s\<in>set (take (MAX_LIST_LENGTH lim) v). length s \<le> MAX_STRING_LENGTH lim"
    and "p \<in> set (self_send_in_pings self)"
  shows "fst (test_get_value self (Some p) (drain lim (snd (set_metric self v w))))
           = Inr (PyList (take (MAX_LIST_LENGTH lim) v))
       \<and> fst (test_get_num_recorded_errors self kind (Some p)
                (drain lim (snd (set_metric self v w))))
           = Inr (int (lookup_errors (core (drain lim w)) (self_handle self) kind p
                       + (if kind = InvalidOverflow
                          then count_list (self_send_in_pings self) p else 0)))"
proof -
  let ?w = "drain lim w"
  have r: "registered self ?w" using assms(1) by (simp add: drain_registered)
  have val: "validate lim v = (take (MAX_LIST_LENGTH lim) v, [InvalidOverflow])"
    using assms(3,4) by (rule validate_too_long)
  have d: "drain lim (snd (set_metric self v w)) = run_task lim (Set_closure self v) ?w"
    using assms(2) by (rule drain_set_metric)
  have l: "lookup_value (core (run_task lim (Set_closure self v) ?w)) (self_handle self) p
      = Some (take (MAX_LIST_LENGTH lim) v)"
    using lookup_after_set [OF r assms(5), of lim v] val by simp
  have e: "lookup_errors (core (run_task lim (Set_closure self v) ?w)) (self_handle self)
      kind p = lookup_errors (core ?w) (self_handle self) kind p
        + (if kind = InvalidOverflow then count_list (self_send_in_pings self) p else 0)"
    using errors_after_set [OF r, of lim v kind p] val by simp
  show ?thesis
    unfolding d by (simp add: test_get_value_Some test_get_num_recorded_errors_Some l e)
qed

theorem set_longer_than_limit_keeps_prefix_witness:
  "registered list1 list1_world \<and> \<not> self_disabled list1
   \<and> length (replicate 50 ''a'') > MAX_LIST_LENGTH limits_20_50
   \<and> ''metrics'' \<in> set (self_send_in_pings list1)
   \<and> fst (test_get_value list1 (Some ''metrics'')
        (drain limits_20_50 (snd (set_metric list1 (replicate 50 ''a'') list1_world))))
       = Inr (PyList (replicate 20 ''a''))
   \<and> fst (test_get_num_recorded_errors list1 InvalidOverflow (Some ''metrics'')
        (drain limits_20_50 (snd (set_metric list1 (replicate 50 ''a'') list1_world))))
       = Inr 1"
proof -
  have en: "\<not> self_disabled list1"
    and m: "''metrics'' \<in> set (self_send_in_pings list1)"
    and ps: "self_send_in_pings list1 = [''metrics'']"
    by (simp_all add: list1_eq)
  have q: "queue list1_world = []" by (simp add: list1_world_eq)
  have len: "length (replicate 50 ''a'') > MAX_LIST_LENGTH limits_20_50"
    by (simp add: limits_20_50_def)
  have el: "\<forall>s\<in>set (take (MAX_LIST_LENGTH limits_20_50) (replicate 50 ''a'')).
      length s \<le> MAX_STRING_LENGTH limits_20_50"
    by (simp add: limits_20_50_def)
  show ?thesis
    using set_longer_than_limit_keeps_prefix [OF list1_registered en len el m,
        of InvalidOverflow]
      list1_registered en len m
    by (simp add: drain_empty [OF q] list1_fresh limits_20_50_def ps)
qed

text \<open>
  Claim C5: on a registered, enabled metric, for every list \<open>v\<close> of at most
  \<open>MAX_LIST_LENGTH\<close> strings, each at most \<open>MAX_STRING_LENGTH\<close> long, calling
  \<open>set(v)\<close> and reading any destination ping, or the default one, after the queue has
  been drained yields exactly \<open>v\<close> (order and duplicates kept), and the call records no
  error: every error count is what it was before the write.
\<close>

theorem set_then_get_round_trip:
  assumes "registered self w" and "\<not> self_disabled self"
    and "length v \<le> MAX_LIST_LENGTH lim"
    and "\<forall>s\<in>set v. length s \<le> MAX_STRING_LENGTH lim"
    and "p \<in> set (self_send_in_pings self)"
  shows "fst (test_get_value self (Some p) (drain lim (snd (set_metric self v w))))
           = Inr (PyList v)
       \<and> fst (test_get_value self None (drain lim (snd (set_metric self v w))))
           = Inr (PyList v)
       \<and> fst (test_has_value self (Some p) (drain lim (snd (set_metric self v w))))
           = Inr True
       \<and> fst (test_get_num_recorded_errors self kind (Some p)
                (drain lim (snd (set_metric self v w))))
           = fst (test_get_num_recorded_errors self kind (Some p) (drain lim w))
       \<and> error_count (core (drain lim (snd (set_metric self v w))))
           = error_count (core (drain lim w))"
proof -
  let ?w = "drain lim w"
  have r: "registered self ?w" using assms(1) by (simp add: drain_registered)
  have val: "validate lim v = (v, [])" using assms(3,4) by (rule validate_within)
  have d: "drain lim (snd (set_metric self v w)) = run_task lim (Set_closure self v) ?w"
    using assms(2) by (rule drain_set_metric)
  have l: "lookup_value (core (run_task lim (Set_closure self v) ?w)) (self_handle self) p = Some v"
    using lookup_after_set [OF r assms(5), of lim v] val by simp
  have e: "lookup_errors (core (run_task lim (Set_closure self v) ?w)) (self_handle self) kind p
      = lookup_errors (core ?w) (self_handle self) kind p"
    using errors_after_set [OF r, of lim v kind p] val by simp
  from r obtain df where df: "registry (core ?w) (self_handle self) = Some df"
    by (auto simp: registered_def split: option.splits)
  have c: "error_count (core (run_task lim (Set_closure self v) ?w)) = error_count (core ?w)"
  proof
    fix x :: "metric_id \<times> ErrorType \<times> string"
    obtain i k q where x: "x = (i, k, q)" by (cases x) auto
    show "error_count (core (run_task lim (Set_closure self v) ?w)) x = error_count (core ?w) x"
      unfolding x using run_set_count [OF df, of lim v i k q] val by simp
  qed
  from assms(5) obtain q qs where qs: "self_send_in_pings self = q # qs"
    by (cases "self_send_in_pings self") auto
  then have "q \<in> set (self_send_in_pings self)" by simp
  then have lq: "lookup_value (core (run_task lim (Set_closure self v) ?w)) (self_handle self) q
      = Some v"
    using lookup_after_set [OF r, of q lim v] val by simp
  have n: "fst (test_get_value self None (run_task lim (Set_closure self v) ?w))
      = Inr (PyList v)"
    using test_None_first [OF qs] by (simp add: test_get_value_Some lq)
  show ?thesis
    unfolding d using n by (simp add: test_get_value_Some test_has_value_Some
        test_get_num_recorded_errors_Some l e c)
qed

theorem set_then_get_round_trip_witness:
  "registered list1 list1_world \<and> \<not> self_disabled list1
   \<and> length [''x'', ''y'', ''x''] \<le> MAX_LIST_LENGTH limits_20_50
   \<and> ''metrics'' \<in> set (self_send_in_pings list1)
   \<and> fst (test_get_value list1 (Some ''metrics'')
        (drain limits_20_50 (snd (set_metric list1 [''x'', ''y'', ''x''] list1_world))))
       = Inr (PyList [''x'', ''y'', ''x''])
   \<and> fst (test_get_num_recorded_errors list1 InvalidOverflow (Some ''metrics'')
        (drain limits_20_50 (snd (set_metric list1 [''x'', ''y'', ''x''] list1_world))))
       = Inr 0"
proof -
  have en: "\<not> self_disabled list1"
    and m: "''metrics'' \<in> set (self_send_in_pings list1)"
    by (simp_all add: list1_eq)
  have q: "queue list1_world = []" by (simp add: list1_world_eq)
  have len: "length [''x'', ''y'', ''x''] \<le> MAX_LIST_LENGTH limits_20_50"
    by (simp add: limits_20_50_def)
  have el: "\<forall>s\<in>set [''x'', ''y'', ''x'']. length s \<le> MAX_STRING_LENGTH limits_20_50"
    by (simp add: limits_20_50_def)
  show ?thesis
    using set_then_get_round_trip [OF list1_registered en len el m, of InvalidOverflow]
      list1_registered en len m
    by (simp add: drain_empty [OF q] test_get_num_recorded_errors_Some list1_fresh)
qed

text \<open>
  Claim C6 says that on an enabled metric whose stored list is empty, for all strings
  \<open>a\<close> and \<open>b\<close> within the limits, \<open>add(a); add(b)\<close> leaves the metric in
  the state of \<open>set([a, b])\<close>. The engine appends once for every entry of
  \<open>send_in_pings\<close>: on a metric that names the ping \<open>metrics\<close> twice,
  \<open>add("x"); add("y")\<close> stores \<open>["x", "x", "y", "y"]\<close> while
  \<open>set(["x", "y"])\<close> stores \<open>["x", "y"]\<close>.
\<close>

theorem add_add_repeated_ping_counterexample:
  "fst (test_get_value list2 None
         (drain limits_20_50 (snd (add list2 ''y'' (snd (add list2 ''x'' list2_world))))))
     = Inr (PyList [''x'', ''x'', ''y'', ''y''])
   \<and> fst (test_get_value list2 None
         (drain limits_20_50 (snd (set_metric list2 [''x'', ''y''] list2_world))))
     = Inr (PyList [''x'', ''y''])"
proof -
  have en: "\<not> self_disabled list2"
    and ps: "self_send_in_pings list2 = [''metrics'', ''metrics'']"
    and h: "self_handle list2 = 1"
    by (simp_all add: list2_eq)
  have q: "queue list2_world = []" by (simp add: list2_world_eq)
  let ?w1 = "run_task limits_20_50 (Add_closure list2 ''x'') list2_world"
  let ?w2 = "run_task limits_20_50 (Add_closure list2 ''y'') ?w1"
  have d: "drain limits_20_50 (snd (add list2 ''y'' (snd (add list2 ''x'' list2_world))))
      = ?w2"
    using en by (simp add: drain_add drain_empty [OF q])
  have ds: "drain limits_20_50 (snd (set_metric list2 [''x'', ''y''] list2_world))
      = run_task limits_20_50 (Set_closure list2 [''x'', ''y'']) list2_world"
    using drain_set_metric [OF en] drain_empty [OF q] by simp
  have l2: "lookup_value (core ?w2) (self_handle list2) ''metrics''
      = Some [''x'', ''x'', ''y'', ''y'']"
    by (simp add: run_task.simps lib_glean_string_list_add_def h
        lookup_value_def ffi_encode_string_def append_metric_def validate_def Let_def
        limits_20_50_def getValue_def write_value_def identity_def list2_world_eq)
  have m: "''metrics'' \<in> set (self_send_in_pings list2)" by (simp add: ps)
  have ls: "lookup_value
      (core (run_task limits_20_50 (Set_closure list2 [''x'', ''y'']) list2_world))
      (self_handle list2) ''metrics'' = Some [''x'', ''y'']"
    using lookup_after_set [OF list2_registered m, of limits_20_50 "[''x'', ''y'']"]
    by (simp add: validate_fst limits_20_50_def)
  show ?thesis
    unfolding d ds using test_None_first [OF ps]
    by (simp add: test_get_value_Some l2 ls)
qed

text \<open>
  Claim C6, amended: on a registered, enabled metric whose destination pings are
  pairwise distinct and whose stored list is empty (absent or \<open>[]\<close>) for every
  destination ping, for all strings \<open>a\<close> and \<open>b\<close> of at most
  \<open>MAX_STRING_LENGTH\<close> characters, \<open>add(a); add(b)\<close> leaves the engine in the
  same state as \<open>set([a, b])\<close>, however many tasks the worker runs between the two
  \<open>add\<close> calls. In both cases every destination ping then holds \<open>a\<close> followed
  by \<open>b\<close>, cut to the list limit, and after the first \<open>add\<close> alone it holds
  \<open>[a]\<close>. The list limit is taken to be at least 1.
\<close>

theorem add_add_is_set_of_pair:
  assumes "registered self w" and "\<not> self_disabled self"
    and "distinct (self_send_in_pings self)"
    and "\<forall>p\<in>set (self_send_in_pings self).
           lookup_value (core (drain lim w)) (self_handle self) p = None
           \<or> lookup_value (core (drain lim w)) (self_handle self) p = Some []"
    and "length a \<le> MAX_STRING_LENGTH lim" and "length b \<le> MAX_STRING_LENGTH lim"
    and "1 \<le> MAX_LIST_LENGTH lim"
    and "p \<in> set (self_send_in_pings self)"
  shows "core (drain lim (snd (add self b (worker_steps lim k (snd (add self a w))))))
           = core (drain lim (snd (set_metric self [a, b] w)))
       \<and> fst (test_get_value self (Some p)
                (drain lim (snd (add self b (worker_steps lim k (snd (add self a w)))))))
           = Inr (PyList (take (MAX_LIST_LENGTH lim) [a, b]))
       \<and> fst (test_get_value self (Some p) (drain lim (snd (set_metric self [a, b] w))))
           = Inr (PyList (take (MAX_LIST_LENGTH lim) [a, b]))
       \<and> fst (test_get_value self (Some p) (drain lim (snd (add self a w))))
           = Inr (PyList [a])"
proof -
  let ?w = "drain lim w"
  have r: "registered self ?w" using assms(1) by (simp add: drain_registered)
  then obtain d where d: "registry (core ?w) (self_handle self) = Some d"
    and ps: "def_sendInPings d = self_send_in_pings self"
    by (auto simp: registered_def split: option.splits)
  have dd: "distinct (def_sendInPings d)" using assms(3) ps by simp
  have empty: "\<forall>p\<in>set (def_sendInPings d).
        metric_store (core ?w) (identity d, p) = None
        \<or> metric_store (core ?w) (identity d, p) = Some []"
    using assms(4) d ps by (simp add: lookup_value_def getValue_def)
  have l: "drain lim (snd (add self b (worker_steps lim k (snd (add self a w)))))
      = run_task lim (Add_closure self b) (run_task lim (Add_closure self a) ?w)"
    using assms(2) by (simp add: drain_add drain_worker_steps)
  have rr: "drain lim (snd (set_metric self [a, b] w)) = run_task lim (Set_closure self [a, b]) ?w"
    using assms(2) by (rule drain_set_metric)
  have la: "drain lim (snd (add self a w)) = run_task lim (Add_closure self a) ?w"
    using assms(2) by (rule drain_add)
  have eq: "core (run_task lim (Add_closure self b) (run_task lim (Add_closure self a) ?w))
      = core (run_task lim (Set_closure self [a, b]) ?w)"
    using d dd empty assms(5,6,7) by (rule add_add_set_engine)
  have "\<forall>s\<in>set (take (MAX_LIST_LENGTH lim) [a, b]). length s \<le> MAX_STRING_LENGTH lim"
    using assms(5,6) by (auto dest: in_set_takeD)
  then have tk: "map (take (MAX_STRING_LENGTH lim)) (take (MAX_LIST_LENGTH lim) [a, b])
      = take (MAX_LIST_LENGTH lim) [a, b]"
    by (simp add: map_idI)
  have vs: "lookup_value (core (run_task lim (Set_closure self [a, b]) ?w)) (self_handle self) p
      = Some (take (MAX_LIST_LENGTH lim) [a, b])"
    using lookup_after_set [OF r assms(8), of lim "[a, b]"] by (simp only: validate_fst tk)
  have cur: "(case lookup_value (core ?w) (self_handle self) p of None \<Rightarrow> [] | Some c \<Rightarrow> c) = []"
    using assms(4,8) by (auto split: option.splits)
  have va: "validate lim [a] = ([a], [])" using assms(5,7) by (simp add: validate_within)
  have v1: "lookup_value (core (run_task lim (Add_closure self a) ?w)) (self_handle self) p
      = Some [a]"
    using lookup_after_add [OF r assms(8) assms(3), of lim a] by (simp add: cur va)
  show ?thesis
    unfolding l rr la by (simp add: eq test_get_value_Some vs v1)
qed

theorem add_add_is_set_of_pair_witness:
  "registered list1 list1_world \<and> \<not> self_disabled list1
   \<and> distinct (self_send_in_pings list1)
   \<and> lookup_value (core (drain limits_20_50 list1_world)) (self_handle list1) ''metrics'' = None
   \<and> length ''x'' \<le> MAX_STRING_LENGTH limits_20_50
   \<and> length ''y'' \<le> MAX_STRING_LENGTH limits_20_50
   \<and> 1 \<le> MAX_LIST_LENGTH limits_20_50
   \<and> ''metrics'' \<in> set (self_send_in_pings list1)
   \<and> core (drain limits_20_50 (snd (add list1 ''y'' (snd (add list1 ''x'' list1_world)))))
       = core (drain limits_20_50 (snd (set_metric list1 [''x'', ''y''] list1_world)))
   \<and> fst (test_get_value list1 (Some ''metrics'')
        (drain limits_20_50 (snd (add list1 ''y'' (snd (add list1 ''x'' list1_world))))))
       = Inr (PyList [''x'', ''y''])
   \<and> fst (test_get_value list1 (Some ''metrics'')
        (drain limits_20_50 (snd (set_metric list1 [''x'', ''y''] list1_world))))
       = Inr (PyList [''x'', ''y''])"
proof -
  have en: "\<not> self_disabled list1"
    and m: "''metrics'' \<in> set (self_send_in_pings list1)"
    by (simp_all add: list1_eq)
  have q: "queue list1_world = []" by (simp add: list1_world_eq)
  have dr: "drain limits_20_50 list1_world = list1_world" using q by (rule drain_empty)
  have em: "\<forall>p\<in>set (self_send_in_pings list1).
           lookup_value (core (drain limits_20_50 list1_world)) (self_handle list1) p = None
           \<or> lookup_value (core (drain limits_20_50 list1_world)) (self_handle list1) p = Some []"
    by (simp add: dr list1_fresh)
  have a: "length ''x'' \<le> MAX_STRING_LENGTH limits_20_50"
    and b: "length ''y'' \<le> MAX_STRING_LENGTH limits_20_50"
    and L: "1 \<le> MAX_LIST_LENGTH limits_20_50"
    by (simp_all add: limits_20_50_def)
  have t: "take (MAX_LIST_LENGTH limits_20_50) [''x'', ''y''] = [''x'', ''y'']"
    by (simp add: limits_20_50_def)
  show ?thesis
    using add_add_is_set_of_pair [OF list1_registered en list1_distinct em a b L m, of 0]
      list1_registered en list1_distinct a b L m
    by (simp add: dr list1_fresh t)
qed

text \<open>
  Claim C8: for every input, \<open>add\<close> and \<open>set\<close> return normally. What they
  record on a registered, enabled metric, read back once the queue has been drained, is
  cut and counted, never rejected. After \<open>set\<close> every destination ping holds the
  first \<open>MAX_LIST_LENGTH\<close> elements, each cut to \<open>MAX_STRING_LENGTH\<close>
  characters, and its \<open>InvalidOverflow\<close> count has grown by one for the list, if it
  was too long, and one for each element cut, once for every time the ping is named in
  \<open>send_in_pings\<close>. After \<open>add\<close> every destination ping holds a value. When
  the destination pings are pairwise distinct, that value is the old list followed by
  the new string cut to \<open>MAX_STRING_LENGTH\<close> characters, the whole cut to
  \<open>MAX_LIST_LENGTH\<close> elements, and the \<open>InvalidOverflow\<close> count has grown by the
  errors of validating the new string and those of validating the concatenation.
\<close>

theorem add_set_never_raise:
  "fst (add self v w) = Inr () \<and> fst (set_metric self vs w) = Inr ()
   \<and> (registered self w \<and> \<not> self_disabled self \<and> p \<in> set (self_send_in_pings self) \<longrightarrow>
        fst (test_get_value self (Some p) (drain lim (snd (set_metric self vs w))))
          = Inr (PyList (map (take (MAX_STRING_LENGTH lim)) (take (MAX_LIST_LENGTH lim) vs)))
        \<and> fst (test_get_num_recorded_errors self InvalidOverflow (Some p)
               (drain lim (snd (set_metric self vs w))))
          = Inr (int (lookup_errors (core (drain lim w)) (self_handle self) InvalidOverflow p
                      + count_list (self_send_in_pings self) p
                        * ((if MAX_LIST_LENGTH lim < length vs then 1 else 0)
                           + length (filter (\<lambda>s. MAX_STRING_LENGTH lim < length s)
                                       (take (MAX_LIST_LENGTH lim) vs)))))
        \<and> fst (test_has_value self (Some p) (drain lim (snd (add self v w)))) = Inr True)
   \<and> (registered self w \<and> \<not> self_disabled self \<and> p \<in> set (self_send_in_pings self)
        \<and> distinct (self_send_in_pings self) \<longrightarrow>
        fst (test_get_value self (Some p) (drain lim (snd (add self v w))))
          = Inr (PyList (map (take (MAX_STRING_LENGTH lim)) (take (MAX_LIST_LENGTH lim)
               ((case lookup_value (core (drain lim w)) (self_handle self) p of
                    None \<Rightarrow> [] | Some cur \<Rightarrow> cur)
                 @ map (take (MAX_STRING_LENGTH lim)) (take (MAX_LIST_LENGTH lim) [v])))))
        \<and> fst (test_get_num_recorded_errors self InvalidOverflow (Some p)
               (drain lim (snd (add self v w))))
          = Inr (int (lookup_errors (core (drain lim w)) (self_handle self) InvalidOverflow p
                      + ((if MAX_LIST_LENGTH lim < length [v] then 1 else 0)
                         + length (filter (\<lambda>s. MAX_STRING_LENGTH lim < length s)
                                     (take (MAX_LIST_LENGTH lim) [v])))
                      + ((if MAX_LIST_LENGTH lim < length ((case lookup_value (core (drain lim w)) (self_handle self) p of
                    None \<Rightarrow> [] | Some cur \<Rightarrow> cur)
                 @ map (take (MAX_STRING_LENGTH lim)) (take (MAX_LIST_LENGTH lim) [v])) then 1 else 0)
                         + length (filter (\<lambda>s. MAX_STRING_LENGTH lim < length s)
                                     (take (MAX_LIST_LENGTH lim) ((case lookup_value (core (drain lim w)) (self_handle self) p of
                    None \<Rightarrow> [] | Some cur \<Rightarrow> cur)
                 @ map (take (MAX_STRING_LENGTH lim)) (take (MAX_LIST_LENGTH lim) [v]))))))))"
proof -
  let ?w = "drain lim w"
  have a: "fst (add self v w) = Inr ()" "fst (set_metric self vs w) = Inr ()"
    by (simp_all add: add_def set_metric_def)
  have r: "registered self ?w" if "registered self w"
    using that by (simp add: drain_registered)
  have s1: "fst (test_get_value self (Some p) (drain lim (snd (set_metric self vs w))))
          = Inr (PyList (map (take (MAX_STRING_LENGTH lim)) (take (MAX_LIST_LENGTH lim) vs)))"
    if "registered self w" "\<not> self_disabled self" "p \<in> set (self_send_in_pings self)"
    using lookup_after_set [OF r [OF that(1)] that(3), of lim vs]
    by (simp add: drain_set_metric [OF that(2)] test_get_value_Some validate_fst)
  have s2: "fst (test_get_num_recorded_errors self InvalidOverflow (Some p)
               (drain lim (snd (set_metric self vs w))))
          = Inr (int (lookup_errors (core (drain lim w)) (self_handle self) InvalidOverflow p
                      + count_list (self_send_in_pings self) p
                        * ((if MAX_LIST_LENGTH lim < length vs then 1 else 0)
                           + length (filter (\<lambda>s. MAX_STRING_LENGTH lim < length s)
                                       (take (MAX_LIST_LENGTH lim) vs)))))"
    if "registered self w" "\<not> self_disabled self"
    using errors_after_set [OF r [OF that(1)], of lim vs InvalidOverflow p]
    by (simp add: drain_set_metric [OF that(2)] test_get_num_recorded_errors_Some
        validate_overflow_count)
  have s3: "fst (test_has_value self (Some p) (drain lim (snd (add self v w)))) = Inr True"
    if "registered self w" "\<not> self_disabled self" "p \<in> set (self_send_in_pings self)"
    using present_after_add [OF r [OF that(1)] that(3), of lim v]
    by (simp add: drain_add [OF that(2)] test_has_value_Some)
  have t1: "fst (test_get_value self (Some p) (drain lim (snd (add self v w))))
          = Inr (PyList (map (take (MAX_STRING_LENGTH lim)) (take (MAX_LIST_LENGTH lim)
               ((case lookup_value (core (drain lim w)) (self_handle self) p of
                    None \<Rightarrow> [] | Some cur \<Rightarrow> cur)
                 @ map (take (MAX_STRING_LENGTH lim)) (take (MAX_LIST_LENGTH lim) [v])))))"
    if "registered self w" "\<not> self_disabled self" "p \<in> set (self_send_in_pings self)"
      "distinct (self_send_in_pings self)"
    using lookup_after_add [OF r [OF that(1)] that(3) that(4), of lim v]
    by (simp only: drain_add [OF that(2)] test_get_value_Some validate_fst option.case fst_conv)
  have t2: "fst (test_get_num_recorded_errors self InvalidOverflow (Some p)
               (drain lim (snd (add self v w))))
          = Inr (int (lookup_errors (core (drain lim w)) (self_handle self) InvalidOverflow p
                      + ((if MAX_LIST_LENGTH lim < length [v] then 1 else 0)
                         + length (filter (\<lambda>s. MAX_STRING_LENGTH lim < length s)
                                     (take (MAX_LIST_LENGTH lim) [v])))
                      + ((if MAX_LIST_LENGTH lim < length ((case lookup_value (core (drain lim w)) (self_handle self) p of
                    None \<Rightarrow> [] | Some cur \<Rightarrow> cur)
                 @ map (take (MAX_STRING_LENGTH lim)) (take (MAX_LIST_LENGTH lim) [v])) then 1 else 0)
                         + length (filter (\<lambda>s. MAX_STRING_LENGTH lim < length s)
                                     (take (MAX_LIST_LENGTH lim) ((case lookup_value (core (drain lim w)) (self_handle self) p of
                    None \<Rightarrow> [] | Some cur \<Rightarrow> cur)
                 @ map (take (MAX_STRING_LENGTH lim)) (take (MAX_LIST_LENGTH lim) [v])))))))"
    if "registered self w" "\<not> self_disabled self" "p \<in> set (self_send_in_pings self)"
      "distinct (self_send_in_pings self)"
    using errors_after_add [OF r [OF that(1)] that(3) that(4), of lim v InvalidOverflow]
    by (simp only: drain_add [OF that(2)] test_get_num_recorded_errors_Some validate_fst
        validate_overflow_count fst_conv)
  show ?thesis using a s1 s2 s3 t1 t2 by blast
qed

theorem add_set_never_raise_witness:
  "fst (add list1 (replicate 51 CHR ''a'') list1_world) = Inr ()
   \<and> fst (set_metric list1 (replicate 21 (replicate 51 CHR ''a'')) list1_world) = Inr ()
   \<and> registered list1 list1_world \<and> \<not> self_disabled list1
   \<and> ''metrics'' \<in> set (self_send_in_pings list1) \<and> distinct (self_send_in_pings list1)
   \<and> fst (test_get_value list1 (Some ''metrics'')
        (drain limits_20_50
           (snd (set_metric list1 (replicate 21 (replicate 51 CHR ''a'')) list1_world))))
       = Inr (PyList (replicate 20 (replicate 50 CHR ''a'')))
   \<and> fst (test_get_num_recorded_errors list1 InvalidOverflow (Some ''metrics'')
        (drain limits_20_50
           (snd (set_metric list1 (replicate 21 (replicate 51 CHR ''a'')) list1_world))))
       = Inr 21
   \<and> fst (test_get_value list1 (Some ''metrics'')
        (drain limits_20_50 (snd (add list1 (replicate 51 CHR ''a'') list1_world))))
       = Inr (PyList [replicate 50 CHR ''a''])
   \<and> fst (test_get_num_recorded_errors list1 InvalidOverflow (Some ''metrics'')
        (drain limits_20_50 (snd (add list1 (replicate 51 CHR ''a'') list1_world))))
       = Inr 1"
proof -
  have en: "\<not> self_disabled list1"
    and m: "''metrics'' \<in> set (self_send_in_pings list1)"
    and ps: "self_send_in_pings list1 = [''metrics'']"
    by (simp_all add: list1_eq)
  have q: "queue list1_world = []" by (simp add: list1_world_eq)
  show ?thesis
    using add_set_never_raise [of list1 "replicate 51 CHR ''a''" list1_world
        "replicate 21 (replicate 51 CHR ''a'')" "''metrics''" limits_20_50]
      list1_registered en m list1_distinct
    by (simp add: drain_empty [OF q] list1_fresh limits_20_50_def ps)
qed

subsection \<open>The default ping\<close>



subsection \<open>Construction and disposal\<close>

text \<open>
  Claim C10: for every combination of arguments, also with \<open>disabled\<close> set, the
  constructor makes the native registration call with the arguments it was given and
  keeps the handle it gets back: the handle is not 0, it is live in the engine with
  the definition that was passed, and it stays so until \<open>__del__\<close> releases it.
\<close>

theorem init_always_registers:
  "StringListMetricType_init disabled category lifetime name send_in_pings w = (self, w') \<Longrightarrow>
     ffi_log w' = ffi_log w @
        [Call_new_string_list_metric category name send_in_pings (length send_in_pings)
           lifetime disabled]
     \<and> self_handle self \<noteq> 0
     \<and> self_disabled self = disabled
     \<and> self_send_in_pings self = send_in_pings
     \<and> registry (core w') (self_handle self) =
         Some \<lparr>def_disabled = disabled, def_category = category, def_name = name,
               def_lifetime = lifetime, def_sendInPings = send_in_pings\<rparr>
     \<and> registered self w'
     \<and> registry (core (StringListMetricType_del self w')) (self_handle self) = None"
  by (auto simp: StringListMetricType_init_def lib_glean_new_string_list_metric_def
      register_def ffi_encode_string_def ffi_encode_vec_string_def registered_def
      StringListMetricType_del_def lib_glean_destroy_string_list_metric_def dispose_def)

theorem init_always_registers_witness:
  "StringListMetricType_init True ''tags'' Ping ''list1'' [''metrics''] new_world
     = (list1_off, list1_off_world)
   \<and> ffi_log list1_off_world =
       [Call_new_string_list_metric ''tags'' ''list1'' [''metrics''] 1 Ping True]
   \<and> self_handle list1_off \<noteq> 0
   \<and> registry (core list1_off_world) (self_handle list1_off) =
       Some \<lparr>def_disabled = True, def_category = ''tags'', def_name = ''list1'',
             def_lifetime = Ping, def_sendInPings = [''metrics'']\<rparr>"
proof -
  have h: "StringListMetricType_init True ''tags'' Ping ''list1'' [''metrics''] new_world
     = (list1_off, list1_off_world)"
    by (simp add: list1_off_def list1_off_world_def)
  have l: "ffi_log new_world = []" by (simp add: new_world_def)
  show ?thesis using h l init_always_registers [OF h] by simp
qed

text \<open>
  Claim C7 says that the engine-side destroy is invoked at most once per handle.
  \<open>__del__\<close> never clears \<open>_handle\<close>: invoked twice on the example metric, it
  calls destroy twice with the same handle.
\<close>

theorem del_twice_destroys_twice_counterexample:
  "ffi_log (StringListMetricType_del list1 (StringListMetricType_del list1 list1_world)) =
     [Call_new_string_list_metric ''tags'' ''list1'' [''metrics''] 1 Ping False,
      Call_destroy_string_list_metric 1, Call_destroy_string_list_metric 1]"
  by (simp add: list1_eq list1_world_def StringListMetricType_init_def
      lib_glean_new_string_list_metric_def register_def new_world_def new_engine_def
      ffi_encode_string_def ffi_encode_vec_string_def StringListMetricType_del_def
      lib_glean_destroy_string_list_metric_def)

text \<open>
  Claim C7, as the code has it: \<open>__del__\<close> does nothing when the handle is 0;
  otherwise every invocation calls the engine's destroy with the handle, so a second
  invocation calls it a second time. The engine ignores the destroy of a handle that is
  no longer live: the second invocation releases nothing again and leaves the engine
  and the queue as the first one left them.
\<close>

theorem del_calls_destroy_each_time:
  "(if self_handle self = 0 then StringListMetricType_del self w = w
    else ffi_log (StringListMetricType_del self w)
           = ffi_log w @ [Call_destroy_string_list_metric (self_handle self)]
         \<and> registry (core (StringListMetricType_del self w)) (self_handle self) = None
         \<and> ffi_log (StringListMetricType_del self (StringListMetricType_del self w))
           = ffi_log w @ [Call_destroy_string_list_metric (self_handle self),
                          Call_destroy_string_list_metric (self_handle self)]
         \<and> core (StringListMetricType_del self (StringListMetricType_del self w))
           = core (StringListMetricType_del self w)
         \<and> queue (StringListMetricType_del self (StringListMetricType_del self w))
           = queue (StringListMetricType_del self w))"
  by (simp add: StringListMetricType_del_def lib_glean_destroy_string_list_metric_def
      dispose_twice) (simp add: dispose_def)

theorem del_calls_destroy_each_time_witness:
  "self_handle list1 \<noteq> 0
   \<and> core (StringListMetricType_del list1 (StringListMetricType_del list1 list1_world))
       = core (StringListMetricType_del list1 list1_world)
   \<and> registry (core (StringListMetricType_del list1 list1_world)) (self_handle list1) = None"
proof -
  have h: "self_handle list1 \<noteq> 0" by (simp add: list1_eq)
  show ?thesis using h del_calls_destroy_each_time [of list1 list1_world] by simp
qed

end
